theory Spec2Isabelle
  imports Complex_Main "HOL-Library.Monad_Syntax"
begin

section \<open>The slot harness runner (runner.py)\<close>

text \<open>
  The development embeds \<^verbatim>\<open>pkgs/devenv-harness-runner/runner.py\<close>: the slot
  directory layout, the per-slot file lock, the slot scan, the process runner, the run
  pipeline of \<^verbatim>\<open>main\<close> with its \<^verbatim>\<open>finally\<close> block, and the
  configuration loader. Python exceptions are values of type \<open>error\<close>, a function
  that can raise returns \<open>error + 'a\<close>, and the file system, the lock table and the
  standard output are an explicit \<open>world\<close> that every effectful function takes and
  returns.
\<close>

subsection \<open>Python text: \<^verbatim>\<open>str(int)\<close> and format specifications\<close>

definition digit_char :: "nat \<Rightarrow> char" where
  "digit_char d = char_of (48 + d)"

definition digit_val :: "char \<Rightarrow> nat" where
  "digit_val c = of_char c - 48"

fun str_nat :: "nat \<Rightarrow> string" where
  "str_nat n = (if n < 10 then [digit_char n] else str_nat (n div 10) @ [digit_char (n mod 10)])"

declare str_nat.simps [simp del]

text \<open>\<^verbatim>\<open>str(i)\<close> for a Python int: decimal, a minus sign for negatives.\<close>

definition str_int :: "int \<Rightarrow> string" where
  "str_int i = (if i < 0 then CHR ''-'' # str_nat (nat (- i)) else str_nat (nat i))"

text \<open>\<^verbatim>\<open>f"{idx:02d}"\<close> for an index \<open>idx \<ge> 0\<close>: zero-padded to at least two digits.\<close>

definition fmt_02d :: "nat \<Rightarrow> string" where
  "fmt_02d n = replicate (2 - length (str_nat n)) CHR ''0'' @ str_nat n"

text \<open>Reading a decimal digit string back, used to show that \<open>str_nat\<close> is injective.\<close>

definition nat_of_digits :: "string \<Rightarrow> nat" where
  "nat_of_digits s = foldl (\<lambda>a c. 10 * a + digit_val c) 0 s"

subsection \<open>Paths (\<^verbatim>\<open>pathlib.PurePosixPath\<close>)\<close>

text \<open>
  A path is its \<^verbatim>\<open>parts\<close> tuple: the components in order, an absolute path
  starting with the root component \<^verbatim>\<open>/\<close> (or \<^verbatim>\<open>//\<close>). Two paths are equal
  when their parts are, as in pathlib.
\<close>

type_synonym path = "string list"

fun split_sep :: "char \<Rightarrow> string \<Rightarrow> string list" where
  "split_sep c [] = [[]]"
| "split_sep c (x # xs) =
     (if x = c then [] # split_sep c xs
      else (case split_sep c xs of [] \<Rightarrow> [[x]] | y # ys \<Rightarrow> (x # y) # ys))"

definition rel_parts :: "string \<Rightarrow> string list" where
  "rel_parts s = filter (\<lambda>p. p \<noteq> [] \<and> p \<noteq> ''.'') (split_sep CHR ''/'' s)"

definition path_root :: "string \<Rightarrow> string list" where
  "path_root s =
     (if takeWhile (\<lambda>c. c = CHR ''/'') s = [] then []
      else if length (takeWhile (\<lambda>c. c = CHR ''/'') s) = 2 then [''//'']
      else [''/''])"

text \<open>\<^verbatim>\<open>Path(s)\<close>.\<close>

definition Path :: "string \<Rightarrow> path" where
  "Path s = path_root s @ rel_parts s"

text \<open>\<^verbatim>\<open>p / s\<close>: an absolute right operand replaces the left one.\<close>

definition path_div :: "path \<Rightarrow> string \<Rightarrow> path" where
  "path_div p s = (if path_root s \<noteq> [] then Path s else p @ rel_parts s)"

text \<open>\<^verbatim>\<open>p.parent\<close>: the root and the empty path are their own parents.\<close>

definition parent :: "path \<Rightarrow> path" where
  "parent p = (if p = [] \<or> p = [''/''] \<or> p = [''//''] then p else butlast p)"

fun join_parts :: "string list \<Rightarrow> string" where
  "join_parts [] = []"
| "join_parts [x] = x"
| "join_parts (x # y # ys) = x @ ''/'' @ join_parts (y # ys)"

text \<open>\<^verbatim>\<open>str(p)\<close>.\<close>

definition str_path :: "path \<Rightarrow> string" where
  "str_path p =
     (case p of
        [] \<Rightarrow> ''.''
      | r # ps \<Rightarrow> if r = ''/'' \<or> r = ''//'' then r @ join_parts ps else join_parts p)"

subsection \<open>Configuration record and slot layout\<close>

record HarnessConfig =
  slots :: int
  container_prefix :: string
  state_dir :: path
  artifacts_dir_default :: string

text \<open>\<^verbatim>\<open>slot_paths(cfg, slot)\<close>: name, slot directory, work directory, lock path.\<close>

definition slot_paths :: "HarnessConfig \<Rightarrow> int \<Rightarrow> string \<times> path \<times> path \<times> path" where
  "slot_paths cfg slot =
     (let name = container_prefix cfg @ str_int slot;
          slot_dir = path_div (path_div (state_dir cfg) ''slots'') (str_int slot);
          work_dir = path_div slot_dir ''work'';
          lock_path = path_div slot_dir ''slot.lock''
      in (name, slot_dir, work_dir, lock_path))"

definition slot_name :: "HarnessConfig \<Rightarrow> int \<Rightarrow> string" where
  "slot_name cfg slot = fst (slot_paths cfg slot)"

definition slot_dir_of :: "HarnessConfig \<Rightarrow> int \<Rightarrow> path" where
  "slot_dir_of cfg slot = fst (snd (slot_paths cfg slot))"

definition work_dir_of :: "HarnessConfig \<Rightarrow> int \<Rightarrow> path" where
  "work_dir_of cfg slot = fst (snd (snd (slot_paths cfg slot)))"

definition lock_path_of :: "HarnessConfig \<Rightarrow> int \<Rightarrow> path" where
  "lock_path_of cfg slot = snd (snd (snd (slot_paths cfg slot)))"

subsection \<open>Exceptions\<close>

datatype error =
    FileNotFoundError
  | NotADirectoryError
  | FileExistsError
  | IsADirectoryError
  | UnicodeEncodeError
  | JSONDecodeError
  | KeyError string
  | TypeError
  | ValueError
  | OverflowError
  | AttributeError
  | OSError
  | RuntimeError string

subsection \<open>Configuration loading\<close>

datatype pyfloat = Finite rat | PosInf | NegInf | NaN

datatype json =
    JNull
  | JBool bool
  | JInt int
  | JFloat pyfloat
  | JStr string
  | JArr "json list"
  | JObj "(string \<times> json) list"

datatype config_file = NoFile | BadJson | Json json

text \<open>
  The directories that exist and the regular files with their contents.
\<close>

type_synonym fs = "path set \<times> (path \<rightharpoonup> string)"

text \<open>
  A child process: the bytes it writes to its merged standard output and standard
  error before it ends, its exit code, and what it does to the directories and files.
\<close>

record child =
  out_bytes :: string
  returncode :: int
  effect :: "fs \<Rightarrow> fs"

datatype event =
    Ran "string list" "path option" int
  | SpawnFailed "string list"
  | Broke "string list" error
  | WriteText path string
  | TryLock path bool
  | Unlock path
  | Sleep nat

record world =
  dirs :: "path set"
  files :: "path \<rightharpoonup> string"
  flocks :: "path \<rightharpoonup> nat"
  next_fd :: nat
  stdout :: string
  trace :: "event list"

record env =
  is_root :: bool
  spawn :: "world \<Rightarrow> string list \<Rightarrow> string option \<Rightarrow> child option"
  others :: "world \<Rightarrow> path \<rightharpoonup> nat"
  resolve :: "path \<Rightarrow> path"
  strftime :: string
  getpid :: int
  int_of_text :: "string \<Rightarrow> error + int"
  repr :: "json \<Rightarrow> string"
  encodable :: "string \<Rightarrow> bool"

definition subscript :: "json \<Rightarrow> string \<Rightarrow> error + json" where
  "subscript d k =
     (case d of
        JObj kvs \<Rightarrow> (case map_of kvs k of None \<Rightarrow> Inl (KeyError k) | Some v \<Rightarrow> Inr v)
      | _ \<Rightarrow> Inl TypeError)"

definition dict_get :: "json \<Rightarrow> string \<Rightarrow> json \<Rightarrow> error + json" where
  "dict_get d k dflt =
     (case d of
        JObj kvs \<Rightarrow> Inr (case map_of kvs k of None \<Rightarrow> dflt | Some v \<Rightarrow> v)
      | _ \<Rightarrow> Inl AttributeError)"

definition py_int :: "env \<Rightarrow> json \<Rightarrow> error + int" where
  "py_int E v =
     (case v of
        JInt n \<Rightarrow> Inr n
      | JBool b \<Rightarrow> Inr (if b then 1 else 0)
      | JFloat (Finite r) \<Rightarrow> Inr (if r < 0 then \<lceil>r\<rceil> else \<lfloor>r\<rfloor>)
      | JFloat NaN \<Rightarrow> Inl ValueError
      | JFloat _ \<Rightarrow> Inl OverflowError
      | JStr s \<Rightarrow> int_of_text E s
      | _ \<Rightarrow> Inl TypeError)"

definition py_str :: "env \<Rightarrow> json \<Rightarrow> string" where
  "py_str E v =
     (case v of
        JStr s \<Rightarrow> s
      | JInt n \<Rightarrow> str_int n
      | JBool b \<Rightarrow> (if b then ''True'' else ''False'')
      | JNull \<Rightarrow> ''None''
      | _ \<Rightarrow> repr E v)"

definition py_path :: "json \<Rightarrow> error + path" where
  "py_path v = (case v of JStr s \<Rightarrow> Inr (Path s) | _ \<Rightarrow> Inl TypeError)"

definition load_config :: "env \<Rightarrow> config_file \<Rightarrow> error + HarnessConfig" where
  "load_config E file =
     (case file of
        NoFile \<Rightarrow> Inl FileNotFoundError
      | BadJson \<Rightarrow> Inl JSONDecodeError
      | Json data \<Rightarrow>
          (case subscript data ''slots'' of Inl e \<Rightarrow> Inl e | Inr v1 \<Rightarrow>
          (case py_int E v1 of Inl e \<Rightarrow> Inl e | Inr n \<Rightarrow>
          (case subscript data ''containerPrefix'' of Inl e \<Rightarrow> Inl e | Inr v2 \<Rightarrow>
          (case subscript data ''stateDir'' of Inl e \<Rightarrow> Inl e | Inr v3 \<Rightarrow>
          (case py_path v3 of Inl e \<Rightarrow> Inl e | Inr sd \<Rightarrow>
          (case dict_get data ''artifactsDirDefault'' (JStr ''./artifacts'') of Inl e \<Rightarrow> Inl e | Inr v4 \<Rightarrow>
             Inr \<lparr>slots = n, container_prefix = py_str E v2, state_dir = sd,
                  artifacts_dir_default = py_str E v4\<rparr>)))))))"

subsection \<open>File-system calls of the harness\<close>

text \<open>
  The calls fail as the operating system makes them fail on the shape of the tree: a
  regular file where a directory is needed, a directory where a file is to be opened,
  a missing parent directory. Failures that depend on permissions, quotas or the
  device are not part of the state and are not modelled.
\<close>

definition ancestors_self :: "path \<Rightarrow> path list" where
  "ancestors_self p = map (\<lambda>n. take n p) [1..<Suc (length p)]"

text \<open>
  \<^verbatim>\<open>p.mkdir(parents=True, exist_ok=True)\<close>: \<^verbatim>\<open>FileExistsError\<close> when \<open>p\<close> is a regular
  file, \<^verbatim>\<open>NotADirectoryError\<close> when a directory above \<open>p\<close> is one; otherwise \<open>p\<close> and
  the directories above it exist afterwards.
\<close>

definition mkdir_p :: "path \<Rightarrow> world \<Rightarrow> error + world" where
  "mkdir_p p w =
     (if p \<notin> dirs w \<and> files w p \<noteq> None then Inl FileExistsError
      else if p \<notin> dirs w
              \<and> list_ex (\<lambda>q. q \<notin> dirs w \<and> files w q \<noteq> None) (ancestors_self (parent p))
      then Inl NotADirectoryError
      else Inr (w\<lparr>dirs := dirs w \<union> set (ancestors_self p)\<rparr>))"

definition path_exists :: "path \<Rightarrow> world \<Rightarrow> bool" where
  "path_exists p w = (p \<in> dirs w \<or> files w p \<noteq> None)"

text \<open>
  Why \<^verbatim>\<open>open(p, mode)\<close> fails for a mode that creates the file (\<^verbatim>\<open>a+\<close>, \<^verbatim>\<open>ab\<close>,
  \<^verbatim>\<open>w\<close>), if it does.
\<close>

definition open_error :: "path \<Rightarrow> world \<Rightarrow> error option" where
  "open_error p w =
     (if files w p \<noteq> None then None
      else if p \<in> dirs w then Some IsADirectoryError
      else if parent p \<noteq> [] \<and> parent p \<noteq> p \<and> parent p \<notin> dirs w
      then Some (if files w (parent p) \<noteq> None then NotADirectoryError else FileNotFoundError)
      else None)"

text \<open>\<^verbatim>\<open>open(p, "a+")\<close>: the new file descriptor and the world with the file in it.\<close>

definition open_append :: "path \<Rightarrow> world \<Rightarrow> error + nat \<times> world" where
  "open_append p w =
     (case open_error p w of
        Some e \<Rightarrow> Inl e
      | None \<Rightarrow>
          Inr (next_fd w,
               w\<lparr>files := (if files w p = None then (files w)(p \<mapsto> []) else files w),
                 next_fd := Suc (next_fd w)\<rparr>))"

text \<open>\<^verbatim>\<open>with open(p, "ab") as f: f.write(s)\<close>.\<close>

definition append_bytes :: "path \<Rightarrow> string \<Rightarrow> world \<Rightarrow> error + world" where
  "append_bytes p s w =
     (case open_error p w of
        Some e \<Rightarrow> Inl e
      | None \<Rightarrow>
          Inr (w\<lparr>files := (files w)(p \<mapsto> (case files w p of None \<Rightarrow> s | Some old \<Rightarrow> old @ s))\<rparr>))"

text \<open>
  \<^verbatim>\<open>p.write_text(s)\<close>: the file is opened for writing, which empties it, and then the
  text is encoded; text the locale's encoding cannot represent raises
  \<^verbatim>\<open>UnicodeEncodeError\<close> and leaves the file empty.
\<close>

definition write_text :: "env \<Rightarrow> path \<Rightarrow> string \<Rightarrow> world \<Rightarrow> (error + unit) \<times> world" where
  "write_text E p s w =
     (case open_error p w of
        Some e \<Rightarrow> (Inl e, w)
      | None \<Rightarrow>
          if encodable E s
          then (Inr (), w\<lparr>files := (files w)(p \<mapsto> s), trace := trace w @ [WriteText p s]\<rparr>)
          else (Inl UnicodeEncodeError, w\<lparr>files := (files w)(p \<mapsto> [])\<rparr>))"

subsection \<open>SlotLock\<close>

record SlotLock =
  lock_path :: path
  fd :: "nat option"

definition new_SlotLock :: "path \<Rightarrow> SlotLock" where
  "new_SlotLock p = \<lparr>lock_path = p, fd = None\<rparr>"

text \<open>
  \<^verbatim>\<open>try_lock\<close>: \<open>Inr True\<close> when the lock is taken, \<open>Inr False\<close> on \<^verbatim>\<open>BlockingIOError\<close>;
  an error of \<^verbatim>\<open>mkdir\<close> or \<^verbatim>\<open>open\<close> is not caught and leaves the method.
\<close>

definition try_lock :: "SlotLock \<Rightarrow> world \<Rightarrow> (error + bool) \<times> SlotLock \<times> world" where
  "try_lock lk w =
     (case mkdir_p (parent (lock_path lk)) w of
        Inl e \<Rightarrow> (Inl e, lk, w)
      | Inr w1 \<Rightarrow>
          (case open_append (lock_path lk) w1 of
             Inl e \<Rightarrow> (Inl e, lk, w1)
           | Inr (f, w2) \<Rightarrow>
               (case flocks w2 (lock_path lk) of
                  None \<Rightarrow>
                    (Inr True, lk\<lparr>fd := Some f\<rparr>,
                     w2\<lparr>flocks := (flocks w2)(lock_path lk \<mapsto> f),
                        trace := trace w2 @ [TryLock (lock_path lk) True]\<rparr>)
                | Some _ \<Rightarrow>
                    (Inr False, lk\<lparr>fd := None\<rparr>,
                     w2\<lparr>trace := trace w2 @ [TryLock (lock_path lk) False]\<rparr>))))"

definition unlock :: "SlotLock \<Rightarrow> world \<Rightarrow> SlotLock \<times> world" where
  "unlock lk w =
     (case fd lk of
        None \<Rightarrow> (lk, w)
      | Some f \<Rightarrow>
          (lk\<lparr>fd := None\<rparr>,
           w\<lparr>flocks := (if flocks w (lock_path lk) = Some f
                          then (flocks w)(lock_path lk := None) else flocks w),
             trace := trace w @ [Unlock (lock_path lk)]\<rparr>))"

subsection \<open>Slot acquisition\<close>

text \<open>
  One pass of the \<^verbatim>\<open>for slot in range(1, cfg.slots + 1)\<close> loop: \<open>Inr (Some (slot, lk))\<close>
  is the \<^verbatim>\<open>return slot, lk\<close>, \<open>Inr None\<close> the loop running to its end, \<open>Inl e\<close> an
  exception of \<open>try_lock\<close>.
\<close>

fun scan_slots ::
  "HarnessConfig \<Rightarrow> int list \<Rightarrow> world \<Rightarrow> (error + (int \<times> SlotLock) option) \<times> world" where
  "scan_slots cfg [] w = (Inr None, w)"
| "scan_slots cfg (slot # rest) w =
     (case slot_paths cfg slot of (_, _, _, lp) \<Rightarrow>
        (case try_lock (new_SlotLock lp) w of
           (Inl e, lk, w') \<Rightarrow> (Inl e, w')
         | (Inr ok, lk, w') \<Rightarrow>
             if ok then (Inr (Some (slot, lk)), w') else scan_slots cfg rest w'))"

text \<open>
  \<^verbatim>\<open>await asyncio.sleep(0.2)\<close>: 200 ms pass, and the other processes of the host leave
  the lock table as \<open>others\<close> says.
\<close>

definition py_sleep :: "env \<Rightarrow> nat \<Rightarrow> world \<Rightarrow> world" where
  "py_sleep E ms w = w\<lparr>flocks := others E w, trace := trace w @ [Sleep ms]\<rparr>"

partial_function (option) acquire_slot ::
  "env \<Rightarrow> HarnessConfig \<Rightarrow> bool \<Rightarrow> world \<Rightarrow> ((error + int \<times> SlotLock) \<times> world) option" where
  "acquire_slot E cfg wait w =
     (case scan_slots cfg [1..slots cfg] w of
        (Inl e, w') \<Rightarrow> Some (Inl e, w')
      | (Inr (Some r), w') \<Rightarrow> Some (Inr r, w')
      | (Inr None, w') \<Rightarrow>
          if \<not> wait then Some (Inl (RuntimeError ''no free slots available''), w')
          else acquire_slot E cfg wait (py_sleep E 200 w'))"

subsection \<open>Process runner\<close>

text \<open>
  The stream is created without \<^verbatim>\<open>limit=\<close>, so it has asyncio's default limit of
  \<open>2 ^ 16\<close> bytes.
\<close>

definition stream_limit :: nat where
  "stream_limit = 65536"

text \<open>
  \<^verbatim>\<open>await proc.stdout.readline()\<close> on a stream that holds \<open>buf\<close> up to its end: the
  next line with its newline and the rest of the stream; the rest of the stream when
  it has no newline; \<^verbatim>\<open>ValueError\<close> when the line, without its newline, is longer
  than the limit.
\<close>

definition readline :: "string \<Rightarrow> error + string \<times> string" where
  "readline buf =
     (if stream_limit < length (takeWhile (\<lambda>c. c \<noteq> CHR 0x0A) buf) then Inl ValueError
      else (case dropWhile (\<lambda>c. c \<noteq> CHR 0x0A) buf of
              [] \<Rightarrow> Inr (buf, [])
            | c # rest \<Rightarrow> Inr (takeWhile (\<lambda>c. c \<noteq> CHR 0x0A) buf @ [c], rest)))"

text \<open>One turn of the loop body after the \<^verbatim>\<open>break\<close> test: the line goes to its sink.\<close>

definition emit :: "path option \<Rightarrow> string \<Rightarrow> world \<Rightarrow> (error + unit) \<times> world" where
  "emit log_file line w =
     (case log_file of
        Some p \<Rightarrow>
          (case mkdir_p (parent p) w of
             Inl e \<Rightarrow> (Inl e, w)
           | Inr w1 \<Rightarrow>
               (case append_bytes p line w1 of
                  Inl e \<Rightarrow> (Inl e, w1)
                | Inr w2 \<Rightarrow> (Inr (), w2)))
      | None \<Rightarrow> (Inr (), w\<lparr>stdout := stdout w @ line\<rparr>))"

lemma readline_shorter:
  assumes "readline buf = Inr (line, rest)" and "line \<noteq> []"
  shows "length rest < length buf"
proof (cases "dropWhile (\<lambda>c. c \<noteq> CHR 0x0A) buf")
  case Nil
  from assms(1) have "\<not> stream_limit < length (takeWhile (\<lambda>c. c \<noteq> CHR 0x0A) buf)"
    unfolding readline_def by (simp split: if_split_asm)
  with assms(1) Nil have "line = buf" and "rest = []"
    unfolding readline_def by simp_all
  with assms(2) show ?thesis by simp
next
  case (Cons c rest')
  from assms(1) have "\<not> stream_limit < length (takeWhile (\<lambda>c. c \<noteq> CHR 0x0A) buf)"
    unfolding readline_def by (simp split: if_split_asm)
  with assms(1) Cons have "rest = rest'"
    unfolding readline_def by simp
  moreover have "length (dropWhile (\<lambda>c. c \<noteq> CHR 0x0A) buf) \<le> length buf"
    by (rule length_dropWhile_le)
  ultimately show ?thesis unfolding Cons by simp
qed

function drain :: "path option \<Rightarrow> string \<Rightarrow> world \<Rightarrow> (error + unit) \<times> world" where
  "drain log_file buf w =
     (case readline buf of
        Inl e \<Rightarrow> (Inl e, w)
      | Inr (line, rest) \<Rightarrow>
          if line = [] then (Inr (), w)
          else (case emit log_file line w of
                  (Inl e, w1) \<Rightarrow> (Inl e, w1)
                | (Inr _, w1) \<Rightarrow> drain log_file rest w1))"
  by pat_completeness auto
termination
  by (relation "measure (\<lambda>(log_file, buf, w). length buf)")
     (auto dest: readline_shorter)

declare drain.simps [simp del]

text \<open>The world once the child has done its work on directories and files.\<close>

definition after_child :: "child \<Rightarrow> world \<Rightarrow> world" where
  "after_child proc w =
     w\<lparr>dirs := fst (effect proc (dirs w, files w)), files := snd (effect proc (dirs w, files w))\<rparr>"

definition run_cmd ::
  "env \<Rightarrow> string list \<Rightarrow> path option \<Rightarrow> path option \<Rightarrow> world \<Rightarrow> (error + int) \<times> world" where
  "run_cmd E cmd_argv cwd log_file w =
     (case spawn E w cmd_argv (map_option str_path cwd) of
        None \<Rightarrow> (Inl OSError, w\<lparr>trace := trace w @ [SpawnFailed cmd_argv]\<rparr>)
      | Some proc \<Rightarrow>
          (case drain log_file (out_bytes proc) (after_child proc w) of
             (Inl e, w1) \<Rightarrow> (Inl e, w1\<lparr>trace := trace w1 @ [Broke cmd_argv e]\<rparr>)
           | (Inr _, w1) \<Rightarrow>
               (Inr (returncode proc),
                w1\<lparr>trace := trace w1 @ [Ran cmd_argv log_file (returncode proc)]\<rparr>)))"

subsection \<open>External tools\<close>

definition with_root :: "env \<Rightarrow> string list \<Rightarrow> string list" where
  "with_root E cmd_argv = (if is_root E then cmd_argv else [''sudo'', ''--''] @ cmd_argv)"

definition rsync_argv :: "env \<Rightarrow> path \<Rightarrow> path \<Rightarrow> string list" where
  "rsync_argv E src dst =
     with_root E [''rsync'', ''-a'', ''--delete'', ''--safe-links'',
       ''--exclude'', ''.direnv/'', ''--exclude'', ''result'', ''--exclude'', ''.git/objects/'',
       str_path src @ ''/'', str_path dst @ ''/'']"

definition rsync_project :: "env \<Rightarrow> path \<Rightarrow> path \<Rightarrow> path \<Rightarrow> world \<Rightarrow> (error + unit) \<times> world" where
  "rsync_project E src dst log_path w =
     (case mkdir_p dst w of
        Inl e \<Rightarrow> (Inl e, w)
      | Inr w0 \<Rightarrow>
          (case run_cmd E (rsync_argv E src dst) None (Some log_path) w0 of
             (Inl e, w') \<Rightarrow> (Inl e, w')
           | (Inr rc, w') \<Rightarrow>
               if rc \<noteq> 0 then (Inl (RuntimeError (''rsync failed with exit code '' @ str_int rc)), w')
               else (Inr (), w')))"

definition start_argv :: "env \<Rightarrow> string \<Rightarrow> string list" where
  "start_argv E name = with_root E [''nixos-container'', ''start'', name]"

definition stop_argv :: "env \<Rightarrow> string \<Rightarrow> string list" where
  "stop_argv E name = with_root E [''nixos-container'', ''stop'', name]"

definition run_argv :: "env \<Rightarrow> string \<Rightarrow> string \<Rightarrow> string list" where
  "run_argv E name shell_cmd =
     with_root E [''nixos-container'', ''run'', name, ''--'', ''bash'', ''-lc'', ''cd /work && '' @ shell_cmd]"

definition rm_argv :: "env \<Rightarrow> path \<Rightarrow> string list" where
  "rm_argv E work_dir = with_root E [''rm'', ''-rf'', str_path work_dir]"

definition container_start :: "env \<Rightarrow> string \<Rightarrow> path \<Rightarrow> world \<Rightarrow> (error + unit) \<times> world" where
  "container_start E name log_path w =
     (case run_cmd E (start_argv E name) None (Some log_path) w of
        (Inl e, w') \<Rightarrow> (Inl e, w')
      | (Inr rc, w') \<Rightarrow>
          if rc \<noteq> 0 then (Inl (RuntimeError (''failed to start container '' @ name)), w')
          else (Inr (), w'))"

definition container_stop :: "env \<Rightarrow> string \<Rightarrow> path \<Rightarrow> world \<Rightarrow> (error + unit) \<times> world" where
  "container_stop E name log_path w =
     (case run_cmd E (stop_argv E name) None (Some log_path) w of
        (Inl e, w') \<Rightarrow> (Inl e, w')
      | (Inr rc, w') \<Rightarrow> (Inr (), w'))"

definition container_run :: "env \<Rightarrow> string \<Rightarrow> string \<Rightarrow> path \<Rightarrow> world \<Rightarrow> (error + int) \<times> world" where
  "container_run E name shell_cmd log_path w = run_cmd E (run_argv E name shell_cmd) None (Some log_path) w"

subsection \<open>The run: \<^verbatim>\<open>main\<close>\<close>

record args =
  project :: string
  artifacts :: "string option"
  cmd :: "string list"
  no_wait :: bool
  keep_workdir :: bool

definition run_id :: "env \<Rightarrow> string" where
  "run_id E = strftime E @ ''-'' @ str_int (getpid E)"

definition cmd_log :: "path \<Rightarrow> nat \<Rightarrow> path" where
  "cmd_log out_dir idx = path_div out_dir (''cmd-'' @ fmt_02d idx @ ''.log'')"

definition failed_text :: "nat \<Rightarrow> string \<Rightarrow> int \<Rightarrow> string" where
  "failed_text idx c rc =
     ''Command '' @ str_nat idx @ '' failed: '' @ c @ [CHR 0x0A] @ ''exit='' @ str_int rc @ [CHR 0x0A]"

text \<open>
  The \<^verbatim>\<open>for idx, cmd in enumerate(args.cmd, start=1)\<close> loop. \<open>Inr (Some rc)\<close> is
  the \<^verbatim>\<open>return rc\<close> inside the loop, \<open>Inr None\<close> the loop running to its end.
\<close>

fun run_commands ::
  "env \<Rightarrow> string \<Rightarrow> path \<Rightarrow> nat \<Rightarrow> string list \<Rightarrow> world \<Rightarrow> (error + int option) \<times> world" where
  "run_commands E name out_dir idx [] w = (Inr None, w)"
| "run_commands E name out_dir idx (c # rest) w =
     (case container_run E name c (cmd_log out_dir idx) w of
        (Inl e, w1) \<Rightarrow> (Inl e, w1)
      | (Inr rc, w1) \<Rightarrow>
          if rc \<noteq> 0
          then (case write_text E (path_div out_dir ''FAILED'') (failed_text idx c rc) w1 of
                  (Inl e, w2) \<Rightarrow> (Inl e, w2)
                | (Inr _, w2) \<Rightarrow> (Inr (Some rc), w2))
          else run_commands E name out_dir (Suc idx) rest w1)"

text \<open>Lines 182 to 192: the loop, then the \<^verbatim>\<open>OK\<close> marker and \<^verbatim>\<open>return 0\<close>.\<close>

definition execute :: "env \<Rightarrow> string \<Rightarrow> path \<Rightarrow> string list \<Rightarrow> world \<Rightarrow> (error + int) \<times> world" where
  "execute E name out_dir cmds w =
     (case run_commands E name out_dir 1 cmds w of
        (Inl e, w1) \<Rightarrow> (Inl e, w1)
      | (Inr (Some rc), w1) \<Rightarrow> (Inr rc, w1)
      | (Inr None, w1) \<Rightarrow>
          (case write_text E (path_div out_dir ''OK'') (''success'' @ [CHR 0x0A]) w1 of
             (Inl e, w2) \<Rightarrow> (Inl e, w2)
           | (Inr _, w2) \<Rightarrow> (Inr 0, w2)))"

text \<open>The body of the \<^verbatim>\<open>try\<close> statement, lines 174 to 192.\<close>

definition try_body ::
  "env \<Rightarrow> args \<Rightarrow> string \<Rightarrow> path \<Rightarrow> path \<Rightarrow> path \<Rightarrow> world \<Rightarrow> (error + int) \<times> world" where
  "try_body E a name work_dir proj out_dir w =
     (let lifecycle_log = path_div out_dir ''lifecycle.log'';
          rsync_log = path_div out_dir ''rsync.log''
      in case (if path_exists work_dir w
               then run_cmd E (rm_argv E work_dir) None (Some lifecycle_log) w
               else (Inr 0, w)) of
           (Inl e, w1) \<Rightarrow> (Inl e, w1)
         | (Inr _, w1) \<Rightarrow>
        (case mkdir_p work_dir w1 of
           Inl e \<Rightarrow> (Inl e, w1)
         | Inr w1' \<Rightarrow>
        (case rsync_project E proj work_dir rsync_log w1' of
           (Inl e, w2) \<Rightarrow> (Inl e, w2)
         | (Inr _, w2) \<Rightarrow>
        (case container_start E name lifecycle_log w2 of
           (Inl e, w3) \<Rightarrow> (Inl e, w3)
         | (Inr _, w3) \<Rightarrow> execute E name out_dir (cmd a) w3))))"

text \<open>The \<^verbatim>\<open>finally\<close> block, lines 195 to 198.\<close>

definition finally_block ::
  "env \<Rightarrow> args \<Rightarrow> string \<Rightarrow> path \<Rightarrow> path \<Rightarrow> SlotLock \<Rightarrow> world \<Rightarrow> (error + unit) \<times> world" where
  "finally_block E a name work_dir out_dir lk w =
     (let lifecycle_log = path_div out_dir ''lifecycle.log''
      in case container_stop E name lifecycle_log w of
           (Inl e, w1) \<Rightarrow> (Inl e, w1)
         | (Inr _, w1) \<Rightarrow>
        (case (if \<not> keep_workdir a
               then run_cmd E (rm_argv E work_dir) None (Some lifecycle_log) w1
               else (Inr 0, w1)) of
           (Inl e, w2) \<Rightarrow> (Inl e, w2)
         | (Inr _, w2) \<Rightarrow> (Inr (), snd (unlock lk w2))))"

text \<open>
  \<^verbatim>\<open>try: ... finally: ...\<close>: the \<^verbatim>\<open>finally\<close> block runs after the body however
  the body ended; an exception raised in it replaces the body's result.
\<close>

definition try_finally ::
  "env \<Rightarrow> args \<Rightarrow> string \<Rightarrow> path \<Rightarrow> path \<Rightarrow> path \<Rightarrow> SlotLock \<Rightarrow> world \<Rightarrow> (error + int) \<times> world" where
  "try_finally E a name work_dir proj out_dir lk w =
     (case try_body E a name work_dir proj out_dir w of (r, w1) \<Rightarrow>
        (case finally_block E a name work_dir out_dir lk w1 of
           (Inl e, w2) \<Rightarrow> (Inl e, w2)
         | (Inr _, w2) \<Rightarrow> (r, w2)))"

definition artifacts_root_of :: "env \<Rightarrow> args \<Rightarrow> HarnessConfig \<Rightarrow> path" where
  "artifacts_root_of E a cfg =
     resolve E (Path (case artifacts a of
                        None \<Rightarrow> artifacts_dir_default cfg
                      | Some s \<Rightarrow> if s = [] then artifacts_dir_default cfg else s))"

definition out_dir_of :: "env \<Rightarrow> args \<Rightarrow> HarnessConfig \<Rightarrow> int \<Rightarrow> path" where
  "out_dir_of E a cfg slot =
     path_div (path_div (artifacts_root_of E a cfg) (slot_name cfg slot)) (run_id E)"

text \<open>
  \<^verbatim>\<open>main\<close> after argument parsing. \<open>None\<close> is a run that waits for a slot forever.
  The directory of the run's artifacts is made before the \<^verbatim>\<open>try\<close> statement, so an
  error there leaves \<^verbatim>\<open>main\<close> without the \<^verbatim>\<open>finally\<close> block.
\<close>

definition main :: "env \<Rightarrow> args \<Rightarrow> config_file \<Rightarrow> world \<Rightarrow> ((error + int) \<times> world) option" where
  "main E a file w =
     (case load_config E file of
        Inl e \<Rightarrow> Some (Inl e, w)
      | Inr cfg \<Rightarrow>
          (case acquire_slot E cfg (\<not> no_wait a) w of
             None \<Rightarrow> None
           | Some (Inl e, w1) \<Rightarrow> Some (Inl e, w1)
           | Some (Inr (slot, lk), w1) \<Rightarrow>
               (case slot_paths cfg slot of (name, slot_dir, work_dir, _) \<Rightarrow>
                  (let out_dir = out_dir_of E a cfg slot
                   in case mkdir_p out_dir w1 of
                        Inl e \<Rightarrow> Some (Inl e, w1)
                      | Inr w2 \<Rightarrow>
                          Some (try_finally E a name work_dir (resolve E (Path (project a)))
                                  out_dir lk w2)))))"

text \<open>
  \<^verbatim>\<open>raise SystemExit(asyncio.run(main()))\<close>: the returned int is the exit status, an
  exception that leaves \<^verbatim>\<open>main\<close> ends the interpreter with status 1.
\<close>

definition exit_status :: "error + int \<Rightarrow> int" where
  "exit_status r = (case r of Inl e \<Rightarrow> 1 | Inr rc \<Rightarrow> rc)"

declare acquire_slot.simps [code]

subsection \<open>Sample hosts, used to evaluate the model\<close>

text \<open>
  \<open>host_env sp\<close> is a host where the harness runs as root, every text can be encoded
  and the external tools behave as \<open>sp\<close> says. Its \<open>int_of_text\<close> and \<open>repr\<close> stand for
  \<^verbatim>\<open>int()\<close> on text and \<^verbatim>\<open>str()\<close> on floats, lists and dicts; the configurations
  evaluated below hold JSON integers and strings, for which neither is called.
\<close>

definition quiet :: "int \<Rightarrow> child" where
  "quiet rc = \<lparr>out_bytes = [], returncode = rc, effect = (\<lambda>t. t)\<rparr>"

definition host_env :: "(world \<Rightarrow> string list \<Rightarrow> string option \<Rightarrow> child option) \<Rightarrow> env" where
  "host_env sp =
     \<lparr>is_root = True, spawn = sp, others = flocks, resolve = id,
      strftime = ''20240101-000000'', getpid = 42,
      int_of_text = (\<lambda>s. Inl ValueError), repr = (\<lambda>v. []), encodable = (\<lambda>s. True)\<rparr>"

definition all_succeed :: "world \<Rightarrow> string list \<Rightarrow> string option \<Rightarrow> child option" where
  "all_succeed w argv cwd = Some (quiet 0)"

definition cfg_json :: "(string \<times> json) list" where
  "cfg_json = [(''slots'', JInt 2), (''containerPrefix'', JStr ''dev''),
               (''stateDir'', JStr ''/var/lib/harness'')]"

definition fresh_host :: world where
  "fresh_host = \<lparr>dirs = {}, files = Map.empty, flocks = Map.empty, next_fd = 3, stdout = [],
                 trace = []\<rparr>"

subsection \<open>Slot states\<close>

definition slot_free :: "HarnessConfig \<Rightarrow> world \<Rightarrow> int \<Rightarrow> bool" where
  "slot_free cfg w s = (flocks w (lock_path_of cfg s) = None)"

text \<open>
  A slot is held when some open file description has its lock file locked; the file
  and the directories above it exist, since the holder's \<open>try_lock\<close> created them.
\<close>

definition slot_held :: "HarnessConfig \<Rightarrow> world \<Rightarrow> int \<Rightarrow> bool" where
  "slot_held cfg w s =
     (flocks w (lock_path_of cfg s) \<noteq> None
      \<and> files w (lock_path_of cfg s) \<noteq> None
      \<and> set (ancestors_self (parent (lock_path_of cfg s))) \<subseteq> dirs w)"

text \<open>
  The lock file of a slot can be opened: the slot directory exists or nothing on the
  way to it is a regular file, and the lock path itself is not a directory.
\<close>

definition lock_ready :: "HarnessConfig \<Rightarrow> world \<Rightarrow> int \<Rightarrow> bool" where
  "lock_ready cfg w s =
     ((parent (lock_path_of cfg s) \<in> dirs w
       \<or> list_all (\<lambda>q. q \<in> dirs w \<or> files w q = None) (ancestors_self (parent (lock_path_of cfg s))))
      \<and> (files w (lock_path_of cfg s) \<noteq> None \<or> lock_path_of cfg s \<notin> dirs w))"

definition busy_host :: env where
  "busy_host = (host_env all_succeed)\<lparr>others := (\<lambda>w p. Some 0)\<rparr>"

definition two_slots :: HarnessConfig where
  "two_slots = \<lparr>slots = 2, container_prefix = ''dev'', state_dir = Path ''/var/lib/harness'',
                 artifacts_dir_default = ''./artifacts''\<rparr>"

text \<open>The worlds after one and after two acquisitions on a fresh host.\<close>

definition one_held :: world where
  "one_held = snd (scan_slots two_slots [1..slots two_slots] fresh_host)"

definition both_held :: world where
  "both_held = snd (scan_slots two_slots [1..slots two_slots] one_held)"

text \<open>A host where \<^verbatim>\<open>stateDir/slots\<close> is a regular file.\<close>

definition blocked_host :: world where
  "blocked_host = fresh_host\<lparr>dirs := {[''/''], [''/'', ''var''], [''/'', ''var'', ''lib''],
                                       [''/'', ''var'', ''lib'', ''harness'']},
                              files := [[''/'', ''var'', ''lib'', ''harness'', ''slots''] \<mapsto> []]\<rparr>"

definition spec_args :: args where
  "spec_args = \<lparr>project = ''/src/proj'', artifacts = Some ''/art'',
                 cmd = [''echo A'', ''false'', ''echo C''], no_wait = False, keep_workdir = False\<rparr>"

subsection \<open>The lines of a stream\<close>

text \<open>
  The lines of a byte string: it is cut after every newline, so every line but the
  last ends with a newline, and the last one does when the string does.
\<close>

fun splitlines :: "string \<Rightarrow> string list" where
  "splitlines [] = []"
| "splitlines (c # cs) =
     (if c = CHR 0x0A then [c] # splitlines cs
      else (case splitlines cs of [] \<Rightarrow> [[c]] | l # ls \<Rightarrow> (c # l) # ls))"

definition whole_line :: "string \<Rightarrow> bool" where
  "whole_line l = (l \<noteq> [] \<and> CHR 0x0A \<notin> set (butlast l))"

text \<open>A line fits the stream when it has at most \<open>stream_limit\<close> bytes before its newline.\<close>

definition line_fits :: "string \<Rightarrow> bool" where
  "line_fits l = (length (takeWhile (\<lambda>c. c \<noteq> CHR 0x0A) l) \<le> stream_limit)"

text \<open>
  A log file can be written: its directory exists or can be made, because nothing on
  the way to it is a regular file, and the log path itself is a regular file or free.
\<close>

definition log_ready :: "path \<Rightarrow> world \<Rightarrow> bool" where
  "log_ready p w =
     (p \<noteq> []
      \<and> (parent p \<in> dirs w
         \<or> files w (parent p) = None
           \<and> list_all (\<lambda>q. q \<in> dirs w \<or> files w q = None) (ancestors_self (parent (parent p))))
      \<and> (files w p \<noteq> None \<or> p \<notin> dirs w \<and> p \<notin> set (ancestors_self (parent p))))"

definition says :: "string \<Rightarrow> int \<Rightarrow> world \<Rightarrow> string list \<Rightarrow> string option \<Rightarrow> child option" where
  "says s rc w argv cwd = Some \<lparr>out_bytes = s, returncode = rc, effect = (\<lambda>t. t)\<rparr>"

definition long_line :: string where
  "long_line = replicate 65537 (CHR ''x'')"

section \<open>Properties\<close>

subsection \<open>Decimal text\<close>

lemma digit_val_digit_char: "d < 10 \<Longrightarrow> digit_val (digit_char d) = d"
  by (simp add: digit_val_def digit_char_def)

lemma nat_of_digits_snoc: "nat_of_digits (s @ [c]) = 10 * nat_of_digits s + digit_val c"
  by (simp add: nat_of_digits_def)

lemma nat_of_digits_str_nat: "nat_of_digits (str_nat n) = n"
proof (induction n rule: str_nat.induct)
  case (1 n)
  show ?case
  proof (cases "n < 10")
    case True
    then show ?thesis
      by (subst str_nat.simps) (simp add: nat_of_digits_def digit_val_digit_char)
  next
    case False
    with 1 have "nat_of_digits (str_nat (n div 10)) = n div 10" by simp
    with False show ?thesis
      by (subst str_nat.simps) (simp add: nat_of_digits_snoc digit_val_digit_char)
  qed
qed

lemma str_nat_inj: "str_nat m = str_nat n \<Longrightarrow> m = n"
  by (metis nat_of_digits_str_nat)

lemma digit_char_range: "d < 10 \<Longrightarrow> of_char (digit_char d) = (48 + d :: nat)"
  by (simp add: digit_char_def)

lemma digit_char_not_slash: "d < 10 \<Longrightarrow> digit_char d \<noteq> CHR ''/''"
  using digit_char_range [of d] by auto

lemma digit_char_not_dot: "d < 10 \<Longrightarrow> digit_char d \<noteq> CHR ''.''"
  using digit_char_range [of d] by auto

lemma digit_char_not_minus: "d < 10 \<Longrightarrow> digit_char d \<noteq> CHR ''-''"
  using digit_char_range [of d] by auto

lemma str_nat_digits: "c \<in> set (str_nat n) \<Longrightarrow> \<exists>d < 10. c = digit_char d"
proof (induction n rule: str_nat.induct)
  case (1 n)
  show ?case
  proof (cases "n < 10")
    case True
    with "1.prems" show ?thesis
      by (subst (asm) str_nat.simps) auto
  next
    case False
    with "1.prems" have "c \<in> set (str_nat (n div 10)) \<or> c = digit_char (n mod 10)"
      by (subst (asm) str_nat.simps) auto
    then show ?thesis
    proof
      assume "c \<in> set (str_nat (n div 10))"
      with 1 False show ?thesis by simp
    next
      assume "c = digit_char (n mod 10)"
      then show ?thesis by (intro exI [of _ "n mod 10"]) simp
    qed
  qed
qed

lemma str_nat_nonempty: "str_nat n \<noteq> []"
  by (subst str_nat.simps) simp

lemma str_nat_hd_not_minus: "hd (str_nat n) \<noteq> CHR ''-''"
proof -
  have "hd (str_nat n) \<in> set (str_nat n)"
    using str_nat_nonempty by simp
  then obtain d where "d < 10" "hd (str_nat n) = digit_char d"
    using str_nat_digits by blast
  then show ?thesis
    using digit_char_not_minus by simp
qed

lemma str_int_inj: "str_int i = str_int j \<Longrightarrow> i = j"
proof -
  assume eq: "str_int i = str_int j"
  have neg: "CHR ''-'' # str_nat a \<noteq> str_nat b" for a b
    using str_nat_hd_not_minus [of b] by (metis list.sel(1))
  show "i = j"
  proof (cases "i < 0")
    case True
    show ?thesis
    proof (cases "j < 0")
      case True
      with \<open>i < 0\<close> eq have "nat (- i) = nat (- j)"
        by (auto simp: str_int_def dest: str_nat_inj)
      with True \<open>i < 0\<close> show ?thesis by simp
    next
      case False
      with \<open>i < 0\<close> eq neg show ?thesis
        by (simp add: str_int_def)
    qed
  next
    case False
    show ?thesis
    proof (cases "j < 0")
      case True
      with False eq neg [of "nat (- j)" "nat i"] show ?thesis
        by (simp add: str_int_def)
    next
      case jpos: False
      with False eq have "nat i = nat j"
        by (auto simp: str_int_def dest: str_nat_inj)
      with False jpos show ?thesis by simp
    qed
  qed
qed

lemma str_int_nonempty: "str_int i \<noteq> []"
  by (simp add: str_int_def str_nat_nonempty)

lemma str_nat_chars:
  "c \<in> set (str_nat n) \<Longrightarrow> c \<noteq> CHR ''/'' \<and> c \<noteq> CHR ''.'' \<and> c \<noteq> CHR ''-''"
  using str_nat_digits [of c n] digit_char_not_slash digit_char_not_dot digit_char_not_minus
  by metis

lemma str_int_no_slash: "CHR ''/'' \<notin> set (str_int i)"
  using str_nat_chars by (auto simp: str_int_def)

lemma str_int_not_dot: "str_int i \<noteq> ''.''"
proof
  assume eq: "str_int i = ''.''"
  show False
  proof (cases "i < 0")
    case True
    with eq show False by (simp add: str_int_def)
  next
    case False
    with eq have "CHR ''.'' \<in> set (str_nat (nat i))"
      by (simp add: str_int_def)
    then show False using str_nat_chars by blast
  qed
qed

subsection \<open>Path components\<close>

lemma split_sep_nonempty: "split_sep c s \<noteq> []"
  by (induction s) (auto split: list.splits)

lemma split_sep_no_sep: "c \<notin> set s \<Longrightarrow> split_sep c s = [s]"
  by (induction s) auto

lemma rel_parts_component:
  "CHR ''/'' \<notin> set s \<Longrightarrow> s \<noteq> [] \<Longrightarrow> s \<noteq> ''.'' \<Longrightarrow> rel_parts s = [s]"
  by (simp add: rel_parts_def split_sep_no_sep)

lemma path_root_relative: "CHR ''/'' \<notin> set s \<Longrightarrow> path_root s = []"
  by (cases s) (auto simp: path_root_def)

lemma path_div_component:
  "CHR ''/'' \<notin> set s \<Longrightarrow> s \<noteq> [] \<Longrightarrow> s \<noteq> ''.'' \<Longrightarrow> path_div p s = p @ [s]"
  by (simp add: path_div_def path_root_relative rel_parts_component)

lemma path_div_str_int: "path_div p (str_int i) = p @ [str_int i]"
  by (rule path_div_component [OF str_int_no_slash str_int_nonempty str_int_not_dot])

lemma slot_paths_eq:
  "slot_paths cfg slot =
     (container_prefix cfg @ str_int slot,
      state_dir cfg @ [''slots'', str_int slot],
      state_dir cfg @ [''slots'', str_int slot, ''work''],
      state_dir cfg @ [''slots'', str_int slot, ''slot.lock''])"
  by (simp add: slot_paths_def Let_def path_div_str_int path_div_component)

lemma lock_path_of_eq: "lock_path_of cfg slot = state_dir cfg @ [''slots'', str_int slot, ''slot.lock'']"
  by (simp add: lock_path_of_def slot_paths_eq)

lemma lock_path_of_inj: "lock_path_of cfg i = lock_path_of cfg j \<Longrightarrow> i = j"
  by (simp add: lock_path_of_eq str_int_inj)

text \<open>
  Claim C10. \<open>slot_paths\<close> is a function of the configuration and the index, and for a
  fixed configuration distinct indices give distinct container names, slot
  directories, work directories and lock paths, so two slots never share a lock file.
\<close>

theorem slot_paths_injective:
  assumes "i \<noteq> j"
  shows "slot_name cfg i \<noteq> slot_name cfg j
       \<and> slot_dir_of cfg i \<noteq> slot_dir_of cfg j
       \<and> work_dir_of cfg i \<noteq> work_dir_of cfg j
       \<and> lock_path_of cfg i \<noteq> lock_path_of cfg j"
  using assms
  by (auto simp: slot_name_def slot_dir_of_def work_dir_of_def lock_path_of_def slot_paths_eq
      dest: str_int_inj)

theorem slot_paths_injective_witness:
  "(1::int) \<noteq> 2
   \<and> slot_name \<lparr>slots = 2, container_prefix = ''dev'', state_dir = Path ''/var/lib/harness'',
        artifacts_dir_default = ''./artifacts''\<rparr> 1 = ''dev1''
   \<and> lock_path_of \<lparr>slots = 2, container_prefix = ''dev'', state_dir = Path ''/var/lib/harness'',
        artifacts_dir_default = ''./artifacts''\<rparr> 1 = [''/'', ''var'', ''lib'', ''harness'', ''slots'', ''1'', ''slot.lock'']
   \<and> lock_path_of \<lparr>slots = 2, container_prefix = ''dev'', state_dir = Path ''/var/lib/harness'',
        artifacts_dir_default = ''./artifacts''\<rparr> 1
     \<noteq> lock_path_of \<lparr>slots = 2, container_prefix = ''dev'', state_dir = Path ''/var/lib/harness'',
        artifacts_dir_default = ''./artifacts''\<rparr> 2"
proof -
  have ne: "(1::int) \<noteq> 2" by simp
  have s1: "str_int 1 = ''1''"
    by code_simp
  have p: "Path ''/var/lib/harness'' = [''/'', ''var'', ''lib'', ''harness'']"
    by (simp add: Path_def path_root_def rel_parts_def)
  show ?thesis
    using slot_paths_injective [OF ne, of "\<lparr>slots = 2, container_prefix = ''dev'',
      state_dir = Path ''/var/lib/harness'', artifacts_dir_default = ''./artifacts''\<rparr>"]
    by (simp add: slot_name_def lock_path_of_def slot_paths_eq s1 p)
qed

subsection \<open>Configuration loading\<close>

lemma subscript_JObj:
  "subscript (JObj kvs) k = (case map_of kvs k of None \<Rightarrow> Inl (KeyError k) | Some v \<Rightarrow> Inr v)"
  by (simp add: subscript_def)

lemma dict_get_JObj:
  "dict_get (JObj kvs) k d = Inr (case map_of kvs k of None \<Rightarrow> d | Some v \<Rightarrow> v)"
  by (simp add: dict_get_def)

lemma load_config_missing_key:
  assumes "k \<in> {''slots'', ''containerPrefix'', ''stateDir''}" and "map_of kvs k = None"
  shows "isl (load_config E (Json (JObj kvs)))"
  using assms
  by (auto simp: load_config_def subscript_JObj split: sum.splits option.splits)

lemma load_config_default:
  assumes "map_of kvs ''artifactsDirDefault'' = None"
  shows "load_config E (Json (JObj kvs))
       = load_config E (Json (JObj (kvs @ [(''artifactsDirDefault'', JStr ''./artifacts'')])))"
proof -
  let ?kvs' = "kvs @ [(''artifactsDirDefault'', JStr ''./artifacts'')]"
  have s: "subscript (JObj ?kvs') k = subscript (JObj kvs) k"
    if "k \<noteq> ''artifactsDirDefault''" for k
    using that by (simp add: subscript_JObj map_add_def split: option.splits)
  have g: "dict_get (JObj ?kvs') ''artifactsDirDefault'' (JStr ''./artifacts'')
         = dict_get (JObj kvs) ''artifactsDirDefault'' (JStr ''./artifacts'')"
    using assms by (simp add: dict_get_JObj map_add_def)
  have "subscript (JObj ?kvs') ''slots'' = subscript (JObj kvs) ''slots''"
    and "subscript (JObj ?kvs') ''containerPrefix'' = subscript (JObj kvs) ''containerPrefix''"
    and "subscript (JObj ?kvs') ''stateDir'' = subscript (JObj kvs) ''stateDir''"
    by (simp_all add: s)
  with g show ?thesis
    unfolding load_config_def by (simp cong: sum.case_cong)
qed

text \<open>
  Claim C8, as amended. Loading fails when the configuration file is absent and when
  one of the fields \<^verbatim>\<open>slots\<close>, \<^verbatim>\<open>containerPrefix\<close>, \<^verbatim>\<open>stateDir\<close> is missing.
  A missing \<^verbatim>\<open>artifactsDirDefault\<close> is not an error: the loader behaves as if the
  file gave it the value \<^verbatim>\<open>./artifacts\<close>.
\<close>

theorem load_config_fatal:
  "load_config E NoFile = Inl FileNotFoundError
   \<and> (\<forall>k \<in> {''slots'', ''containerPrefix'', ''stateDir''}.
         map_of kvs k = None \<longrightarrow> isl (load_config E (Json (JObj kvs))))
   \<and> (map_of kvs ''artifactsDirDefault'' = None \<longrightarrow>
         load_config E (Json (JObj kvs))
         = load_config E (Json (JObj (kvs @ [(''artifactsDirDefault'', JStr ''./artifacts'')]))))"
  using load_config_missing_key [of _ kvs E] load_config_default [of kvs E]
  by (simp add: load_config_def)

text \<open>
  The claim as stated fails: a configuration with the three other fields and no
  \<^verbatim>\<open>artifactsDirDefault\<close> loads.
\<close>

theorem load_config_default_counterexample:
  "map_of cfg_json ''artifactsDirDefault'' = None
   \<and> load_config (host_env all_succeed) (Json (JObj cfg_json))
     = Inr \<lparr>slots = 2, container_prefix = ''dev'',
            state_dir = [''/'', ''var'', ''lib'', ''harness''],
            artifacts_dir_default = ''./artifacts''\<rparr>"
  by code_simp

theorem load_config_fatal_witness:
  "load_config (host_env all_succeed) NoFile = Inl FileNotFoundError
   \<and> map_of [(''slots'', JInt 2), (''containerPrefix'', JStr ''dev'')] ''stateDir'' = None
   \<and> isl (load_config (host_env all_succeed) (Json (JObj [(''slots'', JInt 2), (''containerPrefix'', JStr ''dev'')])))
   \<and> map_of cfg_json ''artifactsDirDefault'' = None
   \<and> load_config (host_env all_succeed) (Json (JObj cfg_json))
     = load_config (host_env all_succeed)
         (Json (JObj (cfg_json @ [(''artifactsDirDefault'', JStr ''./artifacts'')])))"
proof -
  have a: "map_of [(''slots'', JInt 2), (''containerPrefix'', JStr ''dev'')] ''stateDir'' = None"
    by simp
  have b: "map_of cfg_json ''artifactsDirDefault'' = None"
    by (simp add: cfg_json_def)
  note t1 = load_config_fatal [of "host_env all_succeed"
      "[(''slots'', JInt 2), (''containerPrefix'', JStr ''dev'')]"]
  note t2 = load_config_fatal [of "host_env all_succeed" cfg_json]
  have c1: "load_config (host_env all_succeed) NoFile = Inl FileNotFoundError"
    using t1 by blast
  have c3: "isl (load_config (host_env all_succeed)
      (Json (JObj [(''slots'', JInt 2), (''containerPrefix'', JStr ''dev'')])))"
    using t1 a by blast
  have c5: "load_config (host_env all_succeed) (Json (JObj cfg_json))
     = load_config (host_env all_succeed)
         (Json (JObj (cfg_json @ [(''artifactsDirDefault'', JStr ''./artifacts'')])))"
    using t2 b by blast
  show ?thesis
    using a b c1 c3 c5 by blast
qed

subsection \<open>Directories and files\<close>

lemma ancestors_self_self: "p \<noteq> [] \<Longrightarrow> p \<in> set (ancestors_self p)"
proof -
  assume "p \<noteq> []"
  then have "length p \<in> set [1..<Suc (length p)]" by (cases p) auto
  then have "take (length p) p \<in> set (ancestors_self p)"
    unfolding ancestors_self_def by (simp only: set_map) (rule imageI)
  then show ?thesis by simp
qed

lemma ancestors_self_length:
  "q \<in> set (ancestors_self p) \<Longrightarrow> q \<noteq> [] \<and> length q \<le> length p"
  by (auto simp: ancestors_self_def)

lemma ancestors_self_butlast: "set (ancestors_self (butlast p)) \<subseteq> set (ancestors_self p)"
proof
  fix q assume "q \<in> set (ancestors_self (butlast p))"
  then obtain n where n: "1 \<le> n" "n < Suc (length (butlast p))" "q = take n (butlast p)"
    by (auto simp: ancestors_self_def)
  then have "q = take n p" by (simp add: take_butlast)
  moreover from n have "n \<in> set [1..<Suc (length p)]" by auto
  ultimately have "q \<in> (\<lambda>n. take n p) ` set [1..<Suc (length p)]" by (rule image_eqI)
  then show "q \<in> set (ancestors_self p)"
    by (simp add: ancestors_self_def)
qed

lemma ancestors_self_parent: "set (ancestors_self (parent p)) \<subseteq> set (ancestors_self p)"
  using ancestors_self_butlast [of p] by (simp add: parent_def)

lemma mkdir_p_existing:
  assumes "set (ancestors_self p) \<subseteq> dirs w" and "p \<noteq> []"
  shows "mkdir_p p w = Inr w"
proof -
  from assms have "p \<in> dirs w" using ancestors_self_self by blast
  moreover from assms(1) have "dirs w \<union> set (ancestors_self p) = dirs w" by blast
  ultimately show ?thesis by (simp add: mkdir_p_def)
qed

lemma mkdir_p_Inr:
  assumes "mkdir_p p w = Inr w'"
  shows "w' = w\<lparr>dirs := dirs w \<union> set (ancestors_self p)\<rparr>"
  using assms by (simp add: mkdir_p_def split: if_split_asm)

lemma parent_lock_path:
  "parent (lock_path_of cfg s) = state_dir cfg @ [''slots'', str_int s]"
  by (simp add: parent_def lock_path_of_eq butlast_append)

lemma lock_path_not_ancestor:
  "lock_path_of cfg s \<notin> set (ancestors_self (parent (lock_path_of cfg j)))"
proof
  assume "lock_path_of cfg s \<in> set (ancestors_self (parent (lock_path_of cfg j)))"
  from ancestors_self_length [OF this]
  have "length (lock_path_of cfg s) \<le> length (state_dir cfg @ [''slots'', str_int j])"
    by (simp only: parent_lock_path)
  then show False
    by (simp add: lock_path_of_eq)
qed

subsection \<open>Locks and the slot scan\<close>

lemma try_lock_held:
  assumes "slot_held cfg w s"
  shows "try_lock (new_SlotLock (lock_path_of cfg s)) w
       = (Inr False, \<lparr>lock_path = lock_path_of cfg s, fd = None\<rparr>,
          w\<lparr>next_fd := Suc (next_fd w),
            trace := trace w @ [TryLock (lock_path_of cfg s) False]\<rparr>)"
proof -
  from assms have anc: "set (ancestors_self (parent (lock_path_of cfg s))) \<subseteq> dirs w"
    and f: "files w (lock_path_of cfg s) \<noteq> None"
    and l: "flocks w (lock_path_of cfg s) \<noteq> None"
    by (simp_all add: slot_held_def)
  have "parent (lock_path_of cfg s) \<noteq> []" by (simp add: parent_lock_path)
  with anc have mk: "mkdir_p (parent (lock_path_of cfg s)) w = Inr w"
    by (rule mkdir_p_existing)
  from f have op: "open_append (lock_path_of cfg s) w
      = Inr (next_fd w, w\<lparr>next_fd := Suc (next_fd w)\<rparr>)"
    by (auto simp: open_append_def open_error_def)
  from l show ?thesis
    by (auto simp: try_lock_def new_SlotLock_def mk op)
qed

lemma try_lock_free:
  assumes "slot_free cfg w s" and "lock_ready cfg w s"
  shows "try_lock (new_SlotLock (lock_path_of cfg s)) w
       = (Inr True, \<lparr>lock_path = lock_path_of cfg s, fd = Some (next_fd w)\<rparr>,
          w\<lparr>dirs := dirs w \<union> set (ancestors_self (parent (lock_path_of cfg s))),
            files := (if files w (lock_path_of cfg s) = None
                      then (files w)(lock_path_of cfg s \<mapsto> []) else files w),
            next_fd := Suc (next_fd w),
            flocks := (flocks w)(lock_path_of cfg s \<mapsto> next_fd w),
            trace := trace w @ [TryLock (lock_path_of cfg s) True]\<rparr>)"
proof -
  define P where "P = parent (lock_path_of cfg s)"
  define w1 where "w1 = w\<lparr>dirs := dirs w \<union> set (ancestors_self P)\<rparr>"
  have Pne: "P \<noteq> []" by (simp add: P_def parent_lock_path)
  from assms(2) have r1: "P \<in> dirs w \<or> list_all (\<lambda>q. q \<in> dirs w \<or> files w q = None) (ancestors_self P)"
    and r2: "files w (lock_path_of cfg s) \<noteq> None \<or> lock_path_of cfg s \<notin> dirs w"
    by (simp_all add: lock_ready_def P_def)
  have a1: "\<not> (P \<notin> dirs w \<and> files w P \<noteq> None)"
    using r1 ancestors_self_self [OF Pne] by (auto simp: list_all_iff)
  have a2: "\<not> (P \<notin> dirs w \<and> list_ex (\<lambda>q. q \<notin> dirs w \<and> files w q \<noteq> None) (ancestors_self (parent P)))"
    using r1 ancestors_self_parent [of P] by (auto simp: list_all_iff list_ex_iff)
  from a1 a2 have mk: "mkdir_p P w = Inr w1"
    unfolding mkdir_p_def w1_def by (simp only: if_False)
  have Pin: "P \<in> dirs w1" using ancestors_self_self [OF Pne] by (simp add: w1_def)
  have lpn: "files w (lock_path_of cfg s) = None \<Longrightarrow> lock_path_of cfg s \<notin> dirs w1"
    using r2 lock_path_not_ancestor [of cfg s s] by (simp add: w1_def P_def)
  have oe: "open_error (lock_path_of cfg s) w1 = None"
    using lpn Pin by (auto simp: open_error_def w1_def P_def [symmetric])
  from assms(1) have fl: "flocks w (lock_path_of cfg s) = None" by (simp add: slot_free_def)
  show ?thesis
    using fl by (simp add: try_lock_def new_SlotLock_def mk [unfolded w1_def P_def] open_append_def
        oe [unfolded w1_def P_def])
qed

lemma try_lock_blocked:
  assumes "\<not> lock_ready cfg w s"
  shows "\<exists>e w'. try_lock (new_SlotLock (lock_path_of cfg s)) w
                  = (Inl e, new_SlotLock (lock_path_of cfg s), w')
           \<and> files w' = files w \<and> flocks w' = flocks w \<and> trace w' = trace w"
proof -
  define P where "P = parent (lock_path_of cfg s)"
  have Pne: "P \<noteq> []" by (simp add: P_def parent_lock_path)
  show ?thesis
  proof (cases "mkdir_p P w")
    case (Inl e)
    then show ?thesis by (simp add: try_lock_def new_SlotLock_def P_def)
  next
    case (Inr w1)
    note w1 = mkdir_p_Inr [OF Inr]
    from Inr have a: "P \<in> dirs w \<or> \<not> list_ex (\<lambda>q. q \<notin> dirs w \<and> files w q \<noteq> None) (ancestors_self (parent P))"
      and b: "P \<in> dirs w \<or> files w P = None"
      by (auto simp: mkdir_p_def split: if_split_asm)
    have anc: "set (ancestors_self P) \<subseteq> insert P (set (ancestors_self (parent P)))"
    proof
      fix q assume "q \<in> set (ancestors_self P)"
      then obtain n where n: "1 \<le> n" "n \<le> length P" "q = take n P"
        by (auto simp: ancestors_self_def)
      show "q \<in> insert P (set (ancestors_self (parent P)))"
      proof (cases "n = length P")
        case True
        with n show ?thesis by simp
      next
        case False
        with n have lt: "n < length P" by simp
        then have "2 \<le> length P" using n by simp
        then have pp: "parent P = butlast P" by (auto simp: parent_def)
        from lt n have "q = take n (butlast P)" by (simp add: take_butlast)
        moreover from lt n have "n \<in> set [1..<Suc (length (butlast P))]" by auto
        ultimately have "q \<in> (\<lambda>n. take n (butlast P)) ` set [1..<Suc (length (butlast P))]"
          by (rule image_eqI)
        then have "q \<in> set (ancestors_self (parent P))"
          by (simp add: ancestors_self_def pp)
        then show ?thesis by simp
      qed
    qed
    have r1: "P \<in> dirs w \<or> list_all (\<lambda>q. q \<in> dirs w \<or> files w q = None) (ancestors_self P)"
    proof (cases "P \<in> dirs w")
      case True then show ?thesis by simp
    next
      case False
      have "q \<in> dirs w \<or> files w q = None" if "q \<in> set (ancestors_self P)" for q
      proof -
        from that anc have "q = P \<or> q \<in> set (ancestors_self (parent P))" by blast
        with a b False show ?thesis by (auto simp: list_ex_iff)
      qed
      then show ?thesis by (simp add: list_all_iff)
    qed
    with assms have bad: "files w (lock_path_of cfg s) = None" "lock_path_of cfg s \<in> dirs w"
      by (auto simp: lock_ready_def P_def)
    then have "open_error (lock_path_of cfg s) w1 = Some IsADirectoryError"
      by (simp add: open_error_def w1)
    then show ?thesis
      using Inr by (simp add: try_lock_def new_SlotLock_def P_def [symmetric] open_append_def w1)
  qed
qed

lemma scan_slots_Nil: "scan_slots cfg [] w = (Inr None, w)"
  by simp

lemma scan_slots_step:
  "scan_slots cfg (s # rest) w =
     (case try_lock (new_SlotLock (lock_path_of cfg s)) w of
        (Inl e, lk, w') \<Rightarrow> (Inl e, w')
      | (Inr ok, lk, w') \<Rightarrow>
          if ok then (Inr (Some (s, lk)), w') else scan_slots cfg rest w')"
  by (simp add: lock_path_of_def split: prod.splits)

declare scan_slots.simps [simp del]

lemma try_lock_held_keeps:
  assumes "slot_held cfg w s"
  shows "slot_held cfg (w\<lparr>next_fd := n, trace := t\<rparr>) j = slot_held cfg w j"
    and "slot_free cfg (w\<lparr>next_fd := n, trace := t\<rparr>) j = slot_free cfg w j"
    and "lock_ready cfg (w\<lparr>next_fd := n, trace := t\<rparr>) j = lock_ready cfg w j"
  by (simp_all add: slot_held_def slot_free_def lock_ready_def)

lemma scan_slots_held_prefix:
  assumes "\<forall>s \<in> set pre. slot_held cfg w s"
  shows "scan_slots cfg (pre @ rest) w
       = scan_slots cfg rest
           (w\<lparr>next_fd := next_fd w + length pre,
              trace := trace w @ map (\<lambda>s. TryLock (lock_path_of cfg s) False) pre\<rparr>)"
  using assms
proof (induction pre arbitrary: w)
  case Nil
  show ?case by simp
next
  case (Cons s pre)
  define w' where "w' = w\<lparr>next_fd := Suc (next_fd w),
      trace := trace w @ [TryLock (lock_path_of cfg s) False]\<rparr>"
  from Cons.prems have h: "slot_held cfg w s" by simp
  have step: "scan_slots cfg (s # pre @ rest) w = scan_slots cfg (pre @ rest) w'"
    by (simp add: scan_slots_step try_lock_held [OF h] w'_def)
  have "\<forall>s \<in> set pre. slot_held cfg w' s"
    using Cons.prems by (simp add: w'_def try_lock_held_keeps [OF h])
  from Cons.IH [OF this] show ?case
    by (simp add: step w'_def)
qed

lemma scan_slots_all_held:
  assumes "\<forall>s \<in> set ss. slot_held cfg w s"
  shows "scan_slots cfg ss w
       = (Inr None,
          w\<lparr>next_fd := next_fd w + length ss,
            trace := trace w @ map (\<lambda>s. TryLock (lock_path_of cfg s) False) ss\<rparr>)"
  using scan_slots_held_prefix [OF assms, of "[]"] by (simp add: scan_slots_Nil)

lemma scan_slots_first_free:
  assumes "\<forall>s \<in> set pre. slot_held cfg w s" and "slot_free cfg w k" and "lock_ready cfg w k"
  shows "scan_slots cfg (pre @ k # post) w
       = (Inr (Some (k, \<lparr>lock_path = lock_path_of cfg k, fd = Some (next_fd w + length pre)\<rparr>)),
          w\<lparr>dirs := dirs w \<union> set (ancestors_self (parent (lock_path_of cfg k))),
            files := (if files w (lock_path_of cfg k) = None
                      then (files w)(lock_path_of cfg k \<mapsto> []) else files w),
            next_fd := Suc (next_fd w + length pre),
            flocks := (flocks w)(lock_path_of cfg k \<mapsto> next_fd w + length pre),
            trace := trace w @ map (\<lambda>s. TryLock (lock_path_of cfg s) False) pre
                       @ [TryLock (lock_path_of cfg k) True]\<rparr>)"
proof -
  define w' where "w' = w\<lparr>next_fd := next_fd w + length pre,
      trace := trace w @ map (\<lambda>s. TryLock (lock_path_of cfg s) False) pre\<rparr>"
  have f: "slot_free cfg w' k" and r: "lock_ready cfg w' k"
    using assms(2,3) by (simp_all add: w'_def slot_free_def lock_ready_def)
  have eq: "scan_slots cfg (pre @ k # post) w = scan_slots cfg (k # post) w'"
    unfolding w'_def by (rule scan_slots_held_prefix [OF assms(1)])
  have "scan_slots cfg (k # post) w'
      = (Inr (Some (k, \<lparr>lock_path = lock_path_of cfg k, fd = Some (next_fd w')\<rparr>)),
         w'\<lparr>dirs := dirs w' \<union> set (ancestors_self (parent (lock_path_of cfg k))),
            files := (if files w' (lock_path_of cfg k) = None
                      then (files w')(lock_path_of cfg k \<mapsto> []) else files w'),
            next_fd := Suc (next_fd w'),
            flocks := (flocks w')(lock_path_of cfg k \<mapsto> next_fd w'),
            trace := trace w' @ [TryLock (lock_path_of cfg k) True]\<rparr>)"
    by (simp add: scan_slots_step try_lock_free [OF f r])
  then show ?thesis
    unfolding eq by (auto simp: w'_def)
qed

lemma scan_slots_first_blocked:
  assumes "\<forall>s \<in> set pre. slot_held cfg w s" and "\<not> lock_ready cfg w k"
  shows "\<exists>e w'. scan_slots cfg (pre @ k # post) w = (Inl e, w')
           \<and> files w' = files w \<and> flocks w' = flocks w
           \<and> trace w' = trace w @ map (\<lambda>s. TryLock (lock_path_of cfg s) False) pre"
proof -
  define w' where "w' = w\<lparr>next_fd := next_fd w + length pre,
      trace := trace w @ map (\<lambda>s. TryLock (lock_path_of cfg s) False) pre\<rparr>"
  have r: "\<not> lock_ready cfg w' k"
    using assms(2) by (simp add: w'_def lock_ready_def)
  have eq: "scan_slots cfg (pre @ k # post) w = scan_slots cfg (k # post) w'"
    unfolding w'_def by (rule scan_slots_held_prefix [OF assms(1)])
  from try_lock_blocked [OF r] obtain e w2
    where t: "try_lock (new_SlotLock (lock_path_of cfg k)) w' = (Inl e, new_SlotLock (lock_path_of cfg k), w2)"
      and fs: "files w2 = files w'" "flocks w2 = flocks w'" "trace w2 = trace w'"
    by blast
  have "scan_slots cfg (pre @ k # post) w = (Inl e, w2)"
    by (simp add: eq scan_slots_step t)
  with fs show ?thesis by (simp add: w'_def)
qed

lemma slot_held_not_free: "slot_held cfg w s \<Longrightarrow> \<not> slot_free cfg w s"
  by (simp add: slot_held_def slot_free_def)

lemma slot_held_ready: "slot_held cfg w s \<Longrightarrow> lock_ready cfg w s"
proof -
  assume h: "slot_held cfg w s"
  have "parent (lock_path_of cfg s) \<noteq> []" by (simp add: parent_lock_path)
  from ancestors_self_self [OF this] h show ?thesis
    by (auto simp: slot_held_def lock_ready_def)
qed

lemma acquire_slot_found:
  assumes "scan_slots cfg [1..slots cfg] w = (Inr (Some r), w')"
  shows "acquire_slot E cfg wait w = Some (Inr r, w')"
  using assms by (subst acquire_slot.simps) simp

lemma acquire_slot_error:
  assumes "scan_slots cfg [1..slots cfg] w = (Inl e, w')"
  shows "acquire_slot E cfg wait w = Some (Inl e, w')"
  using assms by (subst acquire_slot.simps) simp

lemma acquire_slot_nowait:
  assumes "scan_slots cfg [1..slots cfg] w = (Inr None, w')"
  shows "acquire_slot E cfg False w = Some (Inl (RuntimeError ''no free slots available''), w')"
  using assms by (subst acquire_slot.simps) simp

lemma acquire_slot_wait:
  assumes "scan_slots cfg [1..slots cfg] w = (Inr None, w')"
  shows "acquire_slot E cfg True w = acquire_slot E cfg True (py_sleep E 200 w')"
  using assms by (subst acquire_slot.simps) simp

lemma upto_around:
  assumes "1 \<le> k" and "k \<le> n"
  shows "[1..n] = [1..k - 1] @ k # [k + 1..n]"
  using assms by (rule upto_split3)

lemma acquire_slot_never:
  assumes busy: "\<And>w' j. j \<in> {1..slots cfg} \<Longrightarrow> others E w' (lock_path_of cfg j) \<noteq> None"
    and held: "\<forall>j \<in> {1..slots cfg}. slot_held cfg w j"
  shows "acquire_slot E cfg True w = None"
proof (rule ccontr)
  assume "acquire_slot E cfg True w \<noteq> None"
  then obtain y where y: "acquire_slot E cfg True w = Some y" by auto
  have "E = E \<longrightarrow> cfg = cfg \<longrightarrow> True \<longrightarrow> (\<forall>j \<in> {1..slots cfg}. slot_held cfg w j) \<longrightarrow> False"
  proof (rule acquire_slot.raw_induct [where P = "\<lambda>E' cfg' wait' w' y'.
      E' = E \<longrightarrow> cfg' = cfg \<longrightarrow> wait' \<longrightarrow> (\<forall>j \<in> {1..slots cfg}. slot_held cfg w' j) \<longrightarrow> False", OF _ y])
    fix f E' cfg' wait' w' and y' :: "(error + int \<times> SlotLock) \<times> world"
    assume IH: "\<And>E' cfg' wait' w' y'. f E' cfg' wait' w' = Some y' \<Longrightarrow>
        E' = E \<longrightarrow> cfg' = cfg \<longrightarrow> wait' \<longrightarrow> (\<forall>j \<in> {1..slots cfg}. slot_held cfg w' j) \<longrightarrow> False"
      and body: "(case scan_slots cfg' [1..slots cfg'] w' of
          (Inl e, w'') \<Rightarrow> Some (Inl e, w'')
        | (Inr None, w'') \<Rightarrow>
            if \<not> wait' then Some (Inl (RuntimeError ''no free slots available''), w'')
            else f E' cfg' wait' (py_sleep E' 200 w'')
        | (Inr (Some r), w'') \<Rightarrow> Some (Inr r, w'')) = Some y'"
    show "E' = E \<longrightarrow> cfg' = cfg \<longrightarrow> wait' \<longrightarrow> (\<forall>j \<in> {1..slots cfg}. slot_held cfg w' j) \<longrightarrow> False"
    proof (intro impI)
      assume e: "E' = E" and c: "cfg' = cfg" and wt: wait'
        and h: "\<forall>j \<in> {1..slots cfg}. slot_held cfg w' j"
      define w1 where "w1 = w'\<lparr>next_fd := next_fd w' + length [1..slots cfg],
          trace := trace w' @ map (\<lambda>s. TryLock (lock_path_of cfg s) False) [1..slots cfg]\<rparr>"
      from h have "\<forall>s \<in> set [1..slots cfg]. slot_held cfg w' s" by simp
      from scan_slots_all_held [OF this]
      have sc: "scan_slots cfg [1..slots cfg] w' = (Inr None, w1)"
        by (simp add: w1_def)
      from body have "f E cfg True (py_sleep E 200 w1) = Some y'"
        using wt by (simp add: e c sc)
      from IH [OF this] have "(\<forall>j \<in> {1..slots cfg}. slot_held cfg (py_sleep E 200 w1) j) \<longrightarrow> False"
        by simp
      moreover have "\<forall>j \<in> {1..slots cfg}. slot_held cfg (py_sleep E 200 w1) j"
        using busy h by (simp add: slot_held_def py_sleep_def w1_def)
      ultimately show False by blast
    qed
  qed
  with held show False by simp
qed

text \<open>The sample worlds: slot 1 held, then slots 1 and 2 held.\<close>

lemma upto_two_slots: "[1..slots two_slots] = [1, 2]"
  by (simp add: two_slots_def upto_rec1)

lemma fresh_host_ready: "lock_ready cfg fresh_host s" "slot_free cfg fresh_host s"
  by (simp_all add: lock_ready_def slot_free_def fresh_host_def list_all_iff)

lemma one_held_eq:
  "scan_slots two_slots [1..slots two_slots] fresh_host
     = (Inr (Some (1, \<lparr>lock_path = lock_path_of two_slots 1, fd = Some 3\<rparr>)), one_held)"
proof -
  have pre: "\<forall>s \<in> set []. slot_held two_slots fresh_host s" by simp
  note sc = scan_slots_first_free [OF pre fresh_host_ready(2) fresh_host_ready(1),
      where k = 1 and post = "[2]", simplified, folded upto_two_slots]
  have n: "next_fd fresh_host = 3" by (simp add: fresh_host_def)
  from sc show ?thesis
    unfolding one_held_def by (simp add: n)
qed

lemma one_held_facts:
  "slot_held two_slots one_held 1" "slot_free two_slots one_held 2"
  "lock_ready two_slots one_held 2" "next_fd one_held = 4"
proof -
  have pre: "\<forall>s \<in> set []. slot_held two_slots fresh_host s" by simp
  note sc = scan_slots_first_free [OF pre fresh_host_ready(2) fresh_host_ready(1),
      where k = 1 and post = "[2]", simplified, folded upto_two_slots]
  have n: "next_fd fresh_host = 3" by (simp add: fresh_host_def)
  have eq: "one_held = fresh_host
      \<lparr>dirs := dirs fresh_host \<union> set (ancestors_self (parent (lock_path_of two_slots 1))),
       files := (files fresh_host)(lock_path_of two_slots 1 \<mapsto> []),
       next_fd := 4,
       flocks := (flocks fresh_host)(lock_path_of two_slots 1 \<mapsto> 3),
       trace := trace fresh_host @ [TryLock (lock_path_of two_slots 1) True]\<rparr>"
    unfolding one_held_def sc by (simp add: fresh_host_def)
  show "slot_held two_slots one_held 1"
    by (simp add: eq slot_held_def)
  show "slot_free two_slots one_held 2"
    using lock_path_of_inj [of two_slots 2 1] by (auto simp: eq slot_free_def fresh_host_def)
  show "lock_ready two_slots one_held 2"
    using lock_path_not_ancestor [of two_slots 2 1] lock_path_not_ancestor [of two_slots 1 2]
    by (auto simp: eq lock_ready_def fresh_host_def list_all_iff)
  show "next_fd one_held = 4" by (simp add: eq)
qed

lemma both_held_facts:
  "slot_held two_slots both_held 1" "slot_held two_slots both_held 2"
proof -
  have pre: "\<forall>s \<in> set [1]. slot_held two_slots one_held s"
    using one_held_facts(1) by simp
  note sc = scan_slots_first_free [OF pre one_held_facts(2) one_held_facts(3),
      where post = "[]", simplified, folded upto_two_slots]
  have eq: "both_held = one_held
      \<lparr>dirs := dirs one_held \<union> set (ancestors_self (parent (lock_path_of two_slots 2))),
       files := (if files one_held (lock_path_of two_slots 2) = None
                 then (files one_held)(lock_path_of two_slots 2 \<mapsto> []) else files one_held),
       next_fd := Suc (Suc (next_fd one_held)),
       flocks := (flocks one_held)(lock_path_of two_slots 2 \<mapsto> Suc (next_fd one_held)),
       trace := trace one_held @ [TryLock (lock_path_of two_slots 1) False,
                                   TryLock (lock_path_of two_slots 2) True]\<rparr>"
    unfolding both_held_def sc by simp
  show "slot_held two_slots both_held 2"
    by (simp add: eq slot_held_def)
  from one_held_facts(1) show "slot_held two_slots both_held 1"
    by (auto simp: eq slot_held_def)
qed

lemma blocked_host_facts:
  "\<not> lock_ready two_slots blocked_host 1"
proof -
  have sd: "state_dir two_slots = [''/'', ''var'', ''lib'', ''harness'']"
    by (simp add: two_slots_def Path_def path_root_def rel_parts_def)
  have "[''/'', ''var'', ''lib'', ''harness'', ''slots'']
      \<in> set (ancestors_self (parent (lock_path_of two_slots 1)))"
    unfolding parent_lock_path sd ancestors_self_def
    by (simp add: upt_rec)
  moreover have "[''/'', ''var'', ''lib'', ''harness'', ''slots''] \<notin> dirs blocked_host"
    by (simp add: blocked_host_def fresh_host_def)
  moreover have "files blocked_host [''/'', ''var'', ''lib'', ''harness'', ''slots''] \<noteq> None"
    by (simp add: blocked_host_def fresh_host_def)
  moreover have "parent (lock_path_of two_slots 1) \<notin> dirs blocked_host"
    unfolding parent_lock_path sd by (simp add: blocked_host_def fresh_host_def)
  ultimately show ?thesis
    by (auto simp: lock_ready_def list_all_iff)
qed

text \<open>
  Claim C6. Each pass tries the slots \<open>1..slots\<close> in increasing order, and what it
  does is fixed by the first slot that is not held. If that slot is free and its lock
  file can be opened, it is returned at once, after one failed attempt on every lower
  slot and no attempt on a higher one. If its lock file cannot be opened, the error
  of \<open>try_lock\<close> leaves \<open>acquire_slot\<close> after the failed attempts on the lower slots,
  and no lock is taken. When every slot is held, the pass makes one failed attempt
  per slot; without \<open>wait\<close> the call then raises, with \<open>wait\<close> it sleeps 200 ms and
  scans again, and it does so forever when the slots stay locked.
\<close>

theorem acquire_slot_lowest_free:
  "(1 \<le> k \<and> k \<le> slots cfg \<and> (\<forall>j \<in> {1..<k}. slot_held cfg w j)
      \<and> slot_free cfg w k \<and> lock_ready cfg w k \<longrightarrow>
      (\<exists>w'. acquire_slot E cfg wait w
                = Some (Inr (k, \<lparr>lock_path = lock_path_of cfg k,
                                 fd = Some (next_fd w + nat (k - 1))\<rparr>), w')
          \<and> flocks w' = (flocks w)(lock_path_of cfg k \<mapsto> next_fd w + nat (k - 1))
          \<and> files w' (lock_path_of cfg k) \<noteq> None
          \<and> trace w' = trace w @ map (\<lambda>j. TryLock (lock_path_of cfg j) False) [1..k - 1]
                          @ [TryLock (lock_path_of cfg k) True]))
   \<and> (1 \<le> k \<and> k \<le> slots cfg \<and> (\<forall>j \<in> {1..<k}. slot_held cfg w j)
      \<and> \<not> lock_ready cfg w k \<longrightarrow>
      (\<exists>e w'. acquire_slot E cfg wait w = Some (Inl e, w')
          \<and> flocks w' = flocks w \<and> files w' = files w
          \<and> trace w' = trace w @ map (\<lambda>j. TryLock (lock_path_of cfg j) False) [1..k - 1]))
   \<and> ((\<forall>j \<in> {1..slots cfg}. slot_held cfg w j) \<longrightarrow>
      (\<exists>w'. acquire_slot E cfg False w
                = Some (Inl (RuntimeError ''no free slots available''), w')
          \<and> flocks w' = flocks w
          \<and> trace w' = trace w @ map (\<lambda>j. TryLock (lock_path_of cfg j) False) [1..slots cfg]
          \<and> acquire_slot E cfg True w = acquire_slot E cfg True (py_sleep E 200 w')
          \<and> trace (py_sleep E 200 w') = trace w' @ [Sleep 200]))
   \<and> ((\<forall>j \<in> {1..slots cfg}. slot_held cfg w j)
       \<and> (\<forall>w' j. j \<in> {1..slots cfg} \<longrightarrow> others E w' (lock_path_of cfg j) \<noteq> None) \<longrightarrow>
      acquire_slot E cfg True w = None)"
proof (intro conjI impI)
  assume a: "1 \<le> k \<and> k \<le> slots cfg \<and> (\<forall>j \<in> {1..<k}. slot_held cfg w j)
      \<and> slot_free cfg w k \<and> lock_ready cfg w k"
  then have split: "[1..slots cfg] = [1..k - 1] @ k # [k + 1..slots cfg]"
    by (simp add: upto_around)
  have pre: "\<forall>s \<in> set [1..k - 1]. slot_held cfg w s"
    using a by auto
  have len: "length [1..k - 1] = nat (k - 1)"
    by simp
  from a have f: "slot_free cfg w k" and r: "lock_ready cfg w k" by simp_all
  note sc = scan_slots_first_free [OF pre f r, of "[k + 1..slots cfg]", folded split, unfolded len]
  show "\<exists>w'. acquire_slot E cfg wait w
                = Some (Inr (k, \<lparr>lock_path = lock_path_of cfg k,
                                 fd = Some (next_fd w + nat (k - 1))\<rparr>), w')
          \<and> flocks w' = (flocks w)(lock_path_of cfg k \<mapsto> next_fd w + nat (k - 1))
          \<and> files w' (lock_path_of cfg k) \<noteq> None
          \<and> trace w' = trace w @ map (\<lambda>j. TryLock (lock_path_of cfg j) False) [1..k - 1]
                          @ [TryLock (lock_path_of cfg k) True]"
    unfolding acquire_slot_found [OF sc] by auto
next
  assume a: "1 \<le> k \<and> k \<le> slots cfg \<and> (\<forall>j \<in> {1..<k}. slot_held cfg w j)
      \<and> \<not> lock_ready cfg w k"
  then have split: "[1..slots cfg] = [1..k - 1] @ k # [k + 1..slots cfg]"
    by (simp add: upto_around)
  have pre: "\<forall>s \<in> set [1..k - 1]. slot_held cfg w s"
    using a by auto
  from a have r: "\<not> lock_ready cfg w k" by simp
  from scan_slots_first_blocked [OF pre r, of "[k + 1..slots cfg]", folded split]
  obtain e w' where sc: "scan_slots cfg [1..slots cfg] w = (Inl e, w')"
    and fs: "files w' = files w" "flocks w' = flocks w"
      "trace w' = trace w @ map (\<lambda>s. TryLock (lock_path_of cfg s) False) [1..k - 1]"
    by blast
  show "\<exists>e w'. acquire_slot E cfg wait w = Some (Inl e, w')
          \<and> flocks w' = flocks w \<and> files w' = files w
          \<and> trace w' = trace w @ map (\<lambda>j. TryLock (lock_path_of cfg j) False) [1..k - 1]"
    unfolding acquire_slot_error [OF sc] using fs by simp
next
  assume h: "\<forall>j \<in> {1..slots cfg}. slot_held cfg w j"
  then have h': "\<forall>s \<in> set [1..slots cfg]. slot_held cfg w s" by simp
  note sc = scan_slots_all_held [OF h']
  show "\<exists>w'. acquire_slot E cfg False w
                = Some (Inl (RuntimeError ''no free slots available''), w')
          \<and> flocks w' = flocks w
          \<and> trace w' = trace w @ map (\<lambda>j. TryLock (lock_path_of cfg j) False) [1..slots cfg]
          \<and> acquire_slot E cfg True w = acquire_slot E cfg True (py_sleep E 200 w')
          \<and> trace (py_sleep E 200 w') = trace w' @ [Sleep 200]"
    unfolding acquire_slot_nowait [OF sc] acquire_slot_wait [OF sc]
    by (simp add: py_sleep_def)
next
  assume "(\<forall>j \<in> {1..slots cfg}. slot_held cfg w j)
       \<and> (\<forall>w' j. j \<in> {1..slots cfg} \<longrightarrow> others E w' (lock_path_of cfg j) \<noteq> None)"
  then show "acquire_slot E cfg True w = None"
    by (intro acquire_slot_never) blast+
qed

theorem acquire_slot_lowest_free_witness:
  "slot_held two_slots one_held 1 \<and> slot_free two_slots one_held 2 \<and> lock_ready two_slots one_held 2
   \<and> (\<exists>w'. acquire_slot (host_env all_succeed) two_slots True one_held
              = Some (Inr (2, \<lparr>lock_path = lock_path_of two_slots 2, fd = Some 5\<rparr>), w'))
   \<and> \<not> lock_ready two_slots blocked_host 1
   \<and> (\<exists>e w'. acquire_slot (host_env all_succeed) two_slots True blocked_host = Some (Inl e, w')
              \<and> trace w' = trace blocked_host)
   \<and> map_option fst (acquire_slot (host_env all_succeed) two_slots True blocked_host)
       = Some (Inl NotADirectoryError)
   \<and> slot_held two_slots both_held 1 \<and> slot_held two_slots both_held 2
   \<and> (\<exists>w'. acquire_slot (host_env all_succeed) two_slots False both_held
              = Some (Inl (RuntimeError ''no free slots available''), w'))
   \<and> acquire_slot busy_host two_slots True both_held = None"
proof -
  have h1: "slot_held two_slots one_held 1" by (rule one_held_facts)
  have f2: "slot_free two_slots one_held 2" by (rule one_held_facts)
  have r2: "lock_ready two_slots one_held 2" by (rule one_held_facts)
  have lower: "\<forall>j \<in> {1..<2}. slot_held two_slots one_held j"
  proof
    fix j :: int assume "j \<in> {1..<2}"
    then have "j = 1" by auto
    with h1 show "slot_held two_slots one_held j" by simp
  qed
  have n: "next_fd one_held = 4" by (rule one_held_facts)
  have s: "slots two_slots = 2" by (simp add: two_slots_def)
  have b1: "slot_held two_slots both_held 1" by (rule both_held_facts)
  have b2: "slot_held two_slots both_held 2" by (rule both_held_facts)
  have allb: "\<forall>j \<in> {1..slots two_slots}. slot_held two_slots both_held j"
  proof
    fix j :: int assume "j \<in> {1..slots two_slots}"
    then have "j = 1 \<or> j = 2" using s by auto
    with b1 b2 show "slot_held two_slots both_held j" by blast
  qed
  have busy: "\<forall>w' j. j \<in> {1..slots two_slots} \<longrightarrow> others busy_host w' (lock_path_of two_slots j) \<noteq> None"
    by (simp add: busy_host_def)
  have blk: "\<not> lock_ready two_slots blocked_host 1" by (rule blocked_host_facts)
  have none: "\<forall>j \<in> {1..<1::int}. slot_held two_slots blocked_host j" by simp
  note t1 = acquire_slot_lowest_free [where k = 2 and cfg = two_slots and w = one_held
      and E = "host_env all_succeed" and wait = True]
  note t2 = acquire_slot_lowest_free [where k = 2 and cfg = two_slots and w = both_held
      and E = "host_env all_succeed" and wait = True]
  note t3 = acquire_slot_lowest_free [where k = 2 and cfg = two_slots and w = both_held
      and E = busy_host and wait = True]
  note t4 = acquire_slot_lowest_free [where k = 1 and cfg = two_slots and w = blocked_host
      and E = "host_env all_succeed" and wait = True]
  from t1 f2 r2 lower have c1: "\<exists>w'. acquire_slot (host_env all_succeed) two_slots True one_held
              = Some (Inr (2, \<lparr>lock_path = lock_path_of two_slots 2, fd = Some 5\<rparr>), w')"
    by (simp add: s n) blast
  from t2 allb have c2: "\<exists>w'. acquire_slot (host_env all_succeed) two_slots False both_held
              = Some (Inl (RuntimeError ''no free slots available''), w')"
    by blast
  from t3 allb busy have c3: "acquire_slot busy_host two_slots True both_held = None"
    by blast
  from t4 blk none have c4: "\<exists>e w'. acquire_slot (host_env all_succeed) two_slots True blocked_host
              = Some (Inl e, w') \<and> trace w' = trace blocked_host"
    by (simp add: s) blast
  have c5: "map_option fst (acquire_slot (host_env all_succeed) two_slots True blocked_host)
      = Some (Inl NotADirectoryError)"
    by code_simp
  from h1 f2 r2 c1 blk c4 c5 b1 b2 c2 c3 show ?thesis by blast
qed

text \<open>
  Claim C7. When every slot is held, a run with \<^verbatim>\<open>--no-wait\<close> ends with the
  \<^verbatim>\<open>no free slots available\<close> error, and it leaves the directories, the files and
  the lock table as they were: nothing under a slot directory is created, changed or
  removed.
\<close>

theorem no_wait_fails_without_mutation:
  assumes "load_config E file = Inr cfg" and "no_wait a"
    and "\<forall>j \<in> {1..slots cfg}. slot_held cfg w j"
  shows "\<exists>w'. main E a file w = Some (Inl (RuntimeError ''no free slots available''), w')
           \<and> dirs w' = dirs w \<and> files w' = files w \<and> flocks w' = flocks w"
proof -
  from assms(3) have held: "\<forall>s \<in> set [1..slots cfg]. slot_held cfg w s" by simp
  note sc = scan_slots_all_held [OF held]
  show ?thesis
    using assms(1,2) by (simp add: main_def acquire_slot_nowait [OF sc])
qed

theorem no_wait_fails_without_mutation_witness:
  "load_config (host_env all_succeed) (Json (JObj cfg_json)) = Inr two_slots
   \<and> slot_held two_slots both_held 1 \<and> slot_held two_slots both_held 2
   \<and> (\<exists>w'. main (host_env all_succeed) (spec_args\<lparr>no_wait := True\<rparr>) (Json (JObj cfg_json)) both_held
              = Some (Inl (RuntimeError ''no free slots available''), w')
           \<and> dirs w' = dirs both_held \<and> files w' = files both_held)"
proof -
  have lc: "load_config (host_env all_succeed) (Json (JObj cfg_json)) = Inr two_slots"
    by code_simp
  have h1: "slot_held two_slots both_held 1" by (rule both_held_facts)
  have h2: "slot_held two_slots both_held 2" by (rule both_held_facts)
  have s: "slots two_slots = 2" by (simp add: two_slots_def)
  have allh: "\<forall>j \<in> {1..slots two_slots}. slot_held two_slots both_held j"
  proof
    fix j :: int assume "j \<in> {1..slots two_slots}"
    then have "j = 1 \<or> j = 2" using s by auto
    with h1 h2 show "slot_held two_slots both_held j" by blast
  qed
  have nw: "no_wait (spec_args\<lparr>no_wait := True\<rparr>)" by simp
  from no_wait_fails_without_mutation [OF lc nw allh] lc h1 h2 show ?thesis
    by blast
qed

subsection \<open>Process runner\<close>

lemma splitlines_no_newline:
  "CHR 0x0A \<notin> set l \<Longrightarrow> l \<noteq> [] \<Longrightarrow> splitlines l = [l]"
proof (induction l)
  case Nil
  then show ?case by simp
next
  case (Cons c l)
  show ?case
  proof (cases "l = []")
    case True
    with Cons.prems show ?thesis by simp
  next
    case False
    with Cons have "splitlines l = [l]" by simp
    with Cons.prems show ?thesis by auto
  qed
qed

lemma splitlines_line:
  "CHR 0x0A \<notin> set l \<Longrightarrow> splitlines (l @ CHR 0x0A # rest) = (l @ [CHR 0x0A]) # splitlines rest"
  by (induction l) auto

lemma splitlines_Nil_iff: "splitlines s = [] \<longleftrightarrow> s = []"
  by (cases s) (simp_all split: list.splits)

lemma concat_splitlines: "concat (splitlines s) = s"
  by (induction s) (auto simp: splitlines_Nil_iff split: list.splits)

lemma splitlines_whole: "l \<in> set (splitlines s) \<Longrightarrow> whole_line l"
proof (induction s arbitrary: l)
  case Nil
  then show ?case by simp
next
  case (Cons c s)
  show ?case
  proof (cases "c = CHR 0x0A")
    case True
    with Cons show ?thesis by (auto simp: whole_line_def)
  next
    case False
    show ?thesis
    proof (cases "splitlines s")
      case Nil
      with False Cons.prems show ?thesis by (simp add: whole_line_def)
    next
      case (Cons l' ls)
      with False Cons.prems have "l = c # l' \<or> l \<in> set ls" by simp
      moreover have "whole_line l'" "\<And>x. x \<in> set ls \<Longrightarrow> whole_line x"
        using Cons.IH Cons by simp_all
      ultimately show ?thesis using False
        by (auto simp: whole_line_def)
    qed
  qed
qed

lemma splitlines_terminated:
  "l \<in> set (butlast (splitlines s)) \<Longrightarrow> last l = CHR 0x0A"
proof (induction s arbitrary: l)
  case Nil
  then show ?case by simp
next
  case (Cons c s)
  show ?case
  proof (cases "c = CHR 0x0A")
    case True
    with Cons show ?thesis by (auto split: if_splits)
  next
    case False
    show ?thesis
    proof (cases "splitlines s")
      case Nil
      with False Cons.prems show ?thesis by simp
    next
      case (Cons l' ls)
      have wl: "l' \<noteq> []" using splitlines_whole [of l' s] Cons by (simp add: whole_line_def)
      show ?thesis
      proof (cases "ls = []")
        case True
        with Cons False Cons.prems show ?thesis by simp
      next
        case ne: False
        with Cons False Cons.prems have "l = c # l' \<or> l \<in> set (butlast ls)" by simp
        moreover have "last l' = CHR 0x0A" "\<And>x. x \<in> set (butlast ls) \<Longrightarrow> last x = CHR 0x0A"
          using Cons.IH Cons ne by simp_all
        ultimately show ?thesis using wl by auto
      qed
    qed
  qed
qed

lemma readline_cases:
  "readline buf =
     (if stream_limit < length (takeWhile (\<lambda>c. c \<noteq> CHR 0x0A) buf) then Inl ValueError
      else if dropWhile (\<lambda>c. c \<noteq> CHR 0x0A) buf = [] then Inr (buf, [])
      else Inr (takeWhile (\<lambda>c. c \<noteq> CHR 0x0A) buf @ [CHR 0x0A],
                tl (dropWhile (\<lambda>c. c \<noteq> CHR 0x0A) buf)))"
proof (cases "dropWhile (\<lambda>c. c \<noteq> CHR 0x0A) buf")
  case Nil
  show ?thesis unfolding readline_def Nil by simp
next
  case (Cons c rest)
  then have "\<not> (c \<noteq> CHR 0x0A)" using hd_dropWhile [of "\<lambda>c. c \<noteq> CHR 0x0A" buf] by simp
  then have c: "c = CHR 0x0A" by simp
  show ?thesis unfolding readline_def Cons c by simp
qed

lemma buf_split:
  "dropWhile (\<lambda>c. c \<noteq> CHR 0x0A) buf \<noteq> [] \<Longrightarrow>
     buf = takeWhile (\<lambda>c. c \<noteq> CHR 0x0A) buf @ CHR 0x0A # tl (dropWhile (\<lambda>c. c \<noteq> CHR 0x0A) buf)"
proof -
  assume ne: "dropWhile (\<lambda>c. c \<noteq> CHR 0x0A) buf \<noteq> []"
  then have "\<not> (hd (dropWhile (\<lambda>c. c \<noteq> CHR 0x0A) buf) \<noteq> CHR 0x0A)"
    by (rule hd_dropWhile)
  with ne have "dropWhile (\<lambda>c. c \<noteq> CHR 0x0A) buf
      = CHR 0x0A # tl (dropWhile (\<lambda>c. c \<noteq> CHR 0x0A) buf)"
    by (cases "dropWhile (\<lambda>c. c \<noteq> CHR 0x0A) buf") simp_all
  with takeWhile_dropWhile_id [of "\<lambda>c. c \<noteq> CHR 0x0A" buf] show ?thesis by simp
qed

lemma takeWhile_no_newline: "CHR 0x0A \<notin> set (takeWhile (\<lambda>c. c \<noteq> CHR 0x0A) buf)"
  using set_takeWhileD [of "CHR 0x0A" "\<lambda>c. c \<noteq> CHR 0x0A" buf] by blast

lemma splitlines_buf:
  "splitlines buf =
     (if buf = [] then []
      else if dropWhile (\<lambda>c. c \<noteq> CHR 0x0A) buf = [] then [buf]
      else (takeWhile (\<lambda>c. c \<noteq> CHR 0x0A) buf @ [CHR 0x0A])
             # splitlines (tl (dropWhile (\<lambda>c. c \<noteq> CHR 0x0A) buf)))"
proof (cases "dropWhile (\<lambda>c. c \<noteq> CHR 0x0A) buf = []")
  case True
  then have nl: "CHR 0x0A \<notin> set buf" by (auto simp: dropWhile_eq_Nil_conv)
  show ?thesis
  proof (cases "buf = []")
    case e: True
    then show ?thesis by simp
  next
    case e: False
    from splitlines_no_newline [OF nl e] show ?thesis
      by (simp only: e True if_True if_False refl)
  qed
next
  case False
  then have ne: "buf \<noteq> []" by auto
  have "splitlines (takeWhile (\<lambda>c. c \<noteq> CHR 0x0A) buf
          @ CHR 0x0A # tl (dropWhile (\<lambda>c. c \<noteq> CHR 0x0A) buf))
      = (takeWhile (\<lambda>c. c \<noteq> CHR 0x0A) buf @ [CHR 0x0A])
          # splitlines (tl (dropWhile (\<lambda>c. c \<noteq> CHR 0x0A) buf))"
    by (rule splitlines_line [OF takeWhile_no_newline])
  then have "splitlines buf = (takeWhile (\<lambda>c. c \<noteq> CHR 0x0A) buf @ [CHR 0x0A])
          # splitlines (tl (dropWhile (\<lambda>c. c \<noteq> CHR 0x0A) buf))"
    using buf_split [OF False] by simp
  then show ?thesis by (simp only: ne False if_False)
qed

lemma line_fits_line:
  "line_fits (takeWhile (\<lambda>c. c \<noteq> CHR 0x0A) buf @ [CHR 0x0A])
     = (length (takeWhile (\<lambda>c. c \<noteq> CHR 0x0A) buf) \<le> stream_limit)"
  unfolding line_fits_def
  by (simp add: takeWhile_tail)


lemma line_fits_last:
  "dropWhile (\<lambda>c. c \<noteq> CHR 0x0A) buf = [] \<Longrightarrow>
     line_fits buf = (length (takeWhile (\<lambda>c. c \<noteq> CHR 0x0A) buf) \<le> stream_limit)"
  by (simp add: line_fits_def)

subsection \<open>Writing a line to its sink\<close>

lemma emit_None: "emit None l w = (Inr (), w\<lparr>stdout := stdout w @ l\<rparr>)"
  by (simp add: emit_def)

lemma emit_Some_ready:
  assumes "log_ready p w"
  shows "emit (Some p) l w
       = (Inr (), w\<lparr>dirs := dirs w \<union> set (ancestors_self (parent p)),
                    files := (files w)(p \<mapsto> (case files w p of None \<Rightarrow> l | Some old \<Rightarrow> old @ l))\<rparr>)"
proof -
  define P where "P = parent p"
  define w1 where "w1 = w\<lparr>dirs := dirs w \<union> set (ancestors_self P)\<rparr>"
  from assms have ne: "p \<noteq> []"
    and r1: "P \<in> dirs w \<or> files w P = None
        \<and> list_all (\<lambda>q. q \<in> dirs w \<or> files w q = None) (ancestors_self (parent P))"
    and r2: "files w p \<noteq> None \<or> p \<notin> dirs w \<and> p \<notin> set (ancestors_self P)"
    by (simp_all add: log_ready_def P_def)
  have a1: "\<not> (P \<notin> dirs w \<and> files w P \<noteq> None)"
    using r1 by auto
  have a2: "\<not> (P \<notin> dirs w \<and> list_ex (\<lambda>q. q \<notin> dirs w \<and> files w q \<noteq> None) (ancestors_self (parent P)))"
    using r1 by (auto simp: list_all_iff list_ex_iff)
  from a1 a2 have mk: "mkdir_p P w = Inr w1"
    unfolding mkdir_p_def w1_def by (simp only: if_False)
  have Pin: "P \<noteq> [] \<Longrightarrow> P \<in> dirs w1" using ancestors_self_self [of P] by (simp add: w1_def)
  have oe: "open_error p w1 = None"
  proof (cases "files w p = None")
    case False
    then show ?thesis by (simp add: open_error_def w1_def)
  next
    case True
    with r2 have "p \<notin> dirs w1" by (simp add: w1_def)
    with True Pin show ?thesis
      by (auto simp: open_error_def w1_def P_def [symmetric])
  qed
  have ap: "append_bytes p l w1
      = Inr (w1\<lparr>files := (files w1)(p \<mapsto> (case files w1 p of None \<Rightarrow> l | Some old \<Rightarrow> old @ l))\<rparr>)"
    by (simp add: append_bytes_def oe)
  show ?thesis
    unfolding emit_def option.case P_def [symmetric] mk sum.case ap
    by (simp add: w1_def)
qed

lemma log_ready_emit:
  assumes "log_ready p w"
  shows "log_ready p (snd (emit (Some p) l w))"
proof -
  define P where "P = parent p"
  define w2 where "w2 = snd (emit (Some p) l w)"
  have d: "dirs w2 = dirs w \<union> set (ancestors_self P)"
    and f: "files w2 = (files w)(p \<mapsto> (case files w p of None \<Rightarrow> l | Some old \<Rightarrow> old @ l))"
    unfolding w2_def emit_Some_ready [OF assms] P_def by simp_all
  from assms have ne: "p \<noteq> []"
    and r1: "P \<in> dirs w \<or> files w P = None
        \<and> list_all (\<lambda>q. q \<in> dirs w \<or> files w q = None) (ancestors_self (parent P))"
    by (simp_all add: log_ready_def P_def)
  have c3: "files w2 p \<noteq> None" by (simp add: f)
  have c2: "P \<in> dirs w2 \<or> files w2 P = None
        \<and> list_all (\<lambda>q. q \<in> dirs w2 \<or> files w2 q = None) (ancestors_self (parent P))"
  proof (cases "P = []")
    case False
    from ancestors_self_self [OF False] show ?thesis by (simp add: d)
  next
    case True
    have "ancestors_self (parent P) = []"
      by (simp add: True parent_def ancestors_self_def)
    moreover have "P \<in> dirs w \<or> files w2 P = None"
      using r1 ne by (auto simp: f True)
    ultimately show ?thesis by (auto simp: d)
  qed
  from ne c2 c3 show ?thesis
    unfolding w2_def [symmetric] log_ready_def P_def [symmetric] by blast
qed

lemma sink_ready_emit:
  assumes "case lf of None \<Rightarrow> True | Some p \<Rightarrow> log_ready p w"
  shows "fst (emit lf l w) = Inr ()"
    and "case lf of None \<Rightarrow> True | Some p \<Rightarrow> log_ready p (snd (emit lf l w))"
proof -
  show "fst (emit lf l w) = Inr ()"
    using assms by (cases lf) (simp_all add: emit_None emit_Some_ready)
  show "case lf of None \<Rightarrow> True | Some p \<Rightarrow> log_ready p (snd (emit lf l w))"
    using assms by (cases lf) (simp_all add: log_ready_emit)
qed

end
